theory Spec2Isabelle
  imports Main
begin

section \<open>Python library functions the driver relies on\<close>

text \<open>
  \<^verbatim>\<open>str.rfind\<close> for a one-character needle: the index of the last occurrence,
  \<open>-1\<close> when the character does not occur.
\<close>

fun rfind :: "char \<Rightarrow> string \<Rightarrow> int" where
  "rfind c [] = - 1"
| "rfind c (x # xs) =
     (let r = rfind c xs in if 0 \<le> r then r + 1 else if x = c then 0 else - 1)"

text \<open>
  \<^verbatim>\<open>os.path.splitext\<close> (POSIX flavour, as in CPython's \<^verbatim>\<open>genericpath._splitext\<close>):
  the extension starts at the last dot of the last path component, unless every
  character of that component before this dot is itself a dot; then the whole path is
  the root and the extension is empty.
\<close>

definition splitext :: "string \<Rightarrow> string \<times> string" where
  "splitext p =
     (let sepIndex = rfind CHR ''/'' p;
          dotIndex = rfind CHR ''.'' p
      in if dotIndex > sepIndex \<and>
            list_ex (\<lambda>i. p ! i \<noteq> CHR ''.'') [nat (sepIndex + 1)..<nat dotIndex]
         then (take (nat dotIndex) p, drop (nat dotIndex) p)
         else (p, []))"

text \<open>\<^verbatim>\<open>str.endswith\<close>.\<close>

definition endswith :: "string \<Rightarrow> string \<Rightarrow> bool" where
  "endswith s suf =
     (length suf \<le> length s \<and> drop (length s - length suf) s = suf)"

text \<open>The decimal rendering of a Python \<^verbatim>\<open>int\<close> inside an f-string.\<close>

fun digits :: "nat \<Rightarrow> string" where
  "digits n =
     (if n < 10 then [''0123456789'' ! n]
      else digits (n div 10) @ [''0123456789'' ! (n mod 10)])"

declare digits.simps [simp del]

definition str_int :: "int \<Rightarrow> string" where
  "str_int i = (if i < 0 then CHR ''-'' # digits (nat (- i)) else digits (nat i))"

section \<open>Data of \<^verbatim>\<open>revised_process.py\<close>\<close>

text \<open>The operator classes imported from the \<^verbatim>\<open>straug\<close> package.\<close>

datatype op_class =
    Curve | Distort | Stretch
  | Rotate | Perspective | Shrink
  | Grid | VGrid | HGrid | RectGrid | EllipseGrid
  | Fog | Snow | Frost | Rain | Shadow
  | Contrast | Brightness | JpegCompression | Pixelate
  | Posterize | Solarize | Invert | Equalize | AutoContrast | Sharpness | Color
  | GaussianBlur | DefocusBlur | MotionBlur | GlassBlur | ZoomBlur

text \<open>
  An entry of \<^verbatim>\<open>log_data\<close>: the dictionary with the keys \<^verbatim>\<open>file\<close>,
  \<^verbatim>\<open>function\<close>, \<^verbatim>\<open>magnitude\<close>, \<^verbatim>\<open>output_file\<close> appended after a saved
  augmentation, or the one with the keys \<^verbatim>\<open>file\<close>, \<^verbatim>\<open>error\<close> appended by the
  exception handler.
\<close>

datatype log_entry =
    Success (entry_file: string) (entry_function: string) (entry_magnitude: int)
      (entry_output_file: string)
  | Failure (entry_file: string) (entry_error: string)

fun is_success :: "log_entry \<Rightarrow> bool" where
  "is_success (Success f n m out) = True"
| "is_success (Failure f e) = False"

fun is_failure :: "log_entry \<Rightarrow> bool" where
  "is_failure (Success f n m out) = False"
| "is_failure (Failure f e) = True"

text \<open>What a file of the result directory holds.\<close>

datatype 'img content =
    LogDoc "log_entry list"
  | ImageData 'img
  | OtherData string

text \<open>
  The observable steps of a run, in the order they happen: seeding the generator,
  writing a file of the result directory, opening a source image, constructing an
  operator instance and calling one.
\<close>

datatype 'img event =
    Seeded int
  | Wrote string "'img content"
  | Opened string
  | Constructed op_class
  | Invoked op_class int

text \<open>The parsed command line arguments that the driver reads.\<close>

record args =
  width :: int
  height :: int
  seed :: int
  max_mag :: int

text \<open>
  The collaborators outside \<^verbatim>\<open>revised_process.py\<close>. An exception of class
  \<^verbatim>\<open>Exception\<close> is the value \<open>Inl msg\<close> (or \<open>Some msg\<close> for the save), with
  \<open>msg\<close> what \<^verbatim>\<open>str(e)\<close> gives.

  Modelled from the spec: the operator classes of the \<^verbatim>\<open>straug\<close> package are not
  part of the file; following the spec, constructing an operator and applying it to an
  image at a magnitude are functions of their arguments and of the shared random state,
  which they may advance.
\<close>

record ('img, 'r, 'inst) env =
  np_random_seed :: "int \<Rightarrow> 'r"
  image_open_resize :: "string \<Rightarrow> int \<Rightarrow> int \<Rightarrow> string + 'img"
  construct :: "op_class \<Rightarrow> 'r \<Rightarrow> (string + 'inst) \<times> 'r"
  call :: "'inst \<Rightarrow> 'img \<Rightarrow> int \<Rightarrow> 'r \<Rightarrow> (string + 'img) \<times> 'r"
  image_save :: "'img \<Rightarrow> string \<Rightarrow> string option"

text \<open>
  What a run starts from: the state of the process-wide generator, the result directory
  (\<open>None\<close> when it does not exist yet, otherwise its files by name) and
  \<^verbatim>\<open>os.listdir(args.image_dir)\<close>. The image directory is read only. The record
  describes an image directory that can be listed and a result directory that can be
  created and written; a run that the file system stops is not described.
\<close>

record ('img, 'r) world =
  w_rng :: 'r
  w_result_dir :: "(string \<rightharpoonup> 'img content) option"
  w_listing :: "string list"

text \<open>
  The mutable state of a run: the generator, the files of the result directory, the
  module-level list \<^verbatim>\<open>log_data\<close>, and the steps taken so far.
\<close>

record ('img, 'r) state =
  rng :: 'r
  files :: "string \<rightharpoonup> 'img content"
  log_data :: "log_entry list"
  trace :: "'img event list"

datatype outcome = Done | Raised string

section \<open>The driver\<close>

text \<open>\<^verbatim>\<open>func()(img, mag=mag)\<close>: a new instance of the class, called once.\<close>

definition apply_augmentation ::
  "('img, 'r, 'inst) env \<Rightarrow> 'img \<Rightarrow> op_class \<Rightarrow> int \<Rightarrow> ('img, 'r) state
     \<Rightarrow> (string + 'img) \<times> ('img, 'r) state" where
  "apply_augmentation E img func mag s =
     (case construct E func (rng s) of
        (Inl e, r1) \<Rightarrow> (Inl e, s\<lparr>rng := r1, trace := trace s @ [Constructed func]\<rparr>)
      | (Inr inst, r1) \<Rightarrow>
          (case call E inst img mag r1 of
             (res, r2) \<Rightarrow>
               (res, s\<lparr>rng := r2,
                       trace := trace s @ [Constructed func, Invoked func mag]\<rparr>)))"

definition log_file_name :: string where
  "log_file_name = ''process_log.json''"

definition output_name :: "string \<Rightarrow> string \<Rightarrow> int \<Rightarrow> string" where
  "output_name file_name func_name mag =
     (let base_name = fst (splitext file_name)
      in base_name @ ''_'' @ func_name @ ''_'' @ str_int mag @ ''.png'')"

text \<open>The body of the innermost loop: one WorkUnit.\<close>

definition work_unit ::
  "('img, 'r, 'inst) env \<Rightarrow> string \<Rightarrow> 'img \<Rightarrow> op_class \<times> string \<Rightarrow> int
     \<Rightarrow> ('img, 'r) state \<Rightarrow> outcome \<times> ('img, 'r) state" where
  "work_unit E file_name img fn mag s =
     (case apply_augmentation E img (fst fn) mag s of
        (Inl e, s1) \<Rightarrow> (Raised e, s1)
      | (Inr augmented_img, s1) \<Rightarrow>
          (let output_file_name = output_name file_name (snd fn) mag
           in case image_save E augmented_img output_file_name of
                Some e \<Rightarrow> (Raised e, s1)
              | None \<Rightarrow>
                  (Done,
                   s1\<lparr>files := (files s1)(output_file_name \<mapsto> ImageData augmented_img),
                      log_data := log_data s1 @
                        [Success file_name (snd fn) mag output_file_name],
                      trace := trace s1 @
                        [Wrote output_file_name (ImageData augmented_img)]\<rparr>)))"

text \<open>\<^verbatim>\<open>for mag in range(1, args.max_mag + 1)\<close>, left by the first exception.\<close>

fun mag_loop ::
  "('img, 'r, 'inst) env \<Rightarrow> string \<Rightarrow> 'img \<Rightarrow> op_class \<times> string \<Rightarrow> int list
     \<Rightarrow> ('img, 'r) state \<Rightarrow> outcome \<times> ('img, 'r) state" where
  "mag_loop E file_name img fn [] s = (Done, s)"
| "mag_loop E file_name img fn (mag # mags) s =
     (case work_unit E file_name img fn mag s of
        (Raised e, s1) \<Rightarrow> (Raised e, s1)
      | (Done, s1) \<Rightarrow> mag_loop E file_name img fn mags s1)"

text \<open>\<^verbatim>\<open>for func, func_name in augmentation_functions\<close>.\<close>

fun func_loop ::
  "('img, 'r, 'inst) env \<Rightarrow> int \<Rightarrow> string \<Rightarrow> 'img \<Rightarrow> (op_class \<times> string) list
     \<Rightarrow> ('img, 'r) state \<Rightarrow> outcome \<times> ('img, 'r) state" where
  "func_loop E mmax file_name img [] s = (Done, s)"
| "func_loop E mmax file_name img (fn # fns) s =
     (case mag_loop E file_name img fn [1..mmax] s of
        (Raised e, s1) \<Rightarrow> (Raised e, s1)
      | (Done, s1) \<Rightarrow> func_loop E mmax file_name img fns s1)"

text \<open>The \<^verbatim>\<open>try\<close> block for one source image.\<close>

definition try_block ::
  "('img, 'r, 'inst) env \<Rightarrow> args \<Rightarrow> (op_class \<times> string) list \<Rightarrow> string
     \<Rightarrow> ('img, 'r) state \<Rightarrow> outcome \<times> ('img, 'r) state" where
  "try_block E A catalog file_name s =
     (let s0 = s\<lparr>trace := trace s @ [Opened file_name]\<rparr>
      in case image_open_resize E file_name (width A) (height A) of
           Inl e \<Rightarrow> (Raised e, s0)
         | Inr img \<Rightarrow> func_loop E (max_mag A) file_name img catalog s0)"

text \<open>The \<^verbatim>\<open>try\<close> statement with its \<^verbatim>\<open>except Exception\<close> handler.\<close>

definition process_file ::
  "('img, 'r, 'inst) env \<Rightarrow> args \<Rightarrow> (op_class \<times> string) list \<Rightarrow> string
     \<Rightarrow> ('img, 'r) state \<Rightarrow> ('img, 'r) state" where
  "process_file E A catalog file_name s =
     (case try_block E A catalog file_name s of
        (Done, s1) \<Rightarrow> s1
      | (Raised e, s1) \<Rightarrow> s1\<lparr>log_data := log_data s1 @ [Failure file_name e]\<rparr>)"

text \<open>\<^verbatim>\<open>for file_name in png_files\<close>.\<close>

fun file_loop ::
  "('img, 'r, 'inst) env \<Rightarrow> args \<Rightarrow> (op_class \<times> string) list \<Rightarrow> string list
     \<Rightarrow> ('img, 'r) state \<Rightarrow> ('img, 'r) state" where
  "file_loop E A catalog [] s = s"
| "file_loop E A catalog (file_name # rest) s =
     file_loop E A catalog rest (process_file E A catalog file_name s)"

definition augmentation_functions :: "(op_class \<times> string) list" where
  "augmentation_functions =
     [(Curve, ''curve''), (Distort, ''distort''), (Stretch, ''stretch''),
      (Perspective, ''perspective''), (Rotate, ''rotate''), (Shrink, ''shrink''),
      (Fog, ''fog''), (Snow, ''snow''), (Frost, ''frost''), (Rain, ''rain''),
      (Shadow, ''shadow''),
      (Contrast, ''contrast''), (Brightness, ''brightness''),
      (JpegCompression, ''jpegcompression''), (Pixelate, ''pixelate''),
      (Posterize, ''posterize''), (Solarize, ''solarize''), (Invert, ''invert''),
      (Equalize, ''equalize''), (AutoContrast, ''autocontrast''),
      (Sharpness, ''sharpness''), (Color, ''color''),
      (GaussianBlur, ''gaussianblur''), (DefocusBlur, ''defocusblur''),
      (MotionBlur, ''motionblur''), (GlassBlur, ''glassblur''),
      (ZoomBlur, ''zoomblur'')]"

definition png_files :: "string list \<Rightarrow> string list" where
  "png_files listing = filter (\<lambda>f. endswith f ''.png'') listing"

text \<open>
  \<^verbatim>\<open>np.random.seed\<close> takes an integer from 0 to \<open>2\<^sup>3\<^sup>2 - 1\<close> and raises a
  \<^verbatim>\<open>ValueError\<close> with this message on any other.
\<close>

definition seed_accepted :: "int \<Rightarrow> bool" where
  "seed_accepted i = (0 \<le> i \<and> i < 2 ^ 32)"

definition seed_error :: string where
  "seed_error = ''Seed must be between 0 and 2**32 - 1''"

text \<open>
  What lines 38 to 51 of \<^verbatim>\<open>main\<close> do once the seed is accepted: the generator is
  seeded, the result directory is created when missing, and the log file is created,
  holding the empty array, when missing.
\<close>

definition started ::
  "('img, 'r, 'inst) env \<Rightarrow> args \<Rightarrow> ('img, 'r) world \<Rightarrow> ('img, 'r) state" where
  "started E A W =
     (let dir = (case w_result_dir W of None \<Rightarrow> Map.empty | Some d \<Rightarrow> d);
          s0 = \<lparr>rng = np_random_seed E (seed A), files = dir, log_data = [],
                trace = [Seeded (seed A)]\<rparr>
      in if dir log_file_name = None
         then s0\<lparr>files := dir(log_file_name \<mapsto> LogDoc []),
                 trace := trace s0 @ [Wrote log_file_name (LogDoc [])]\<rparr>
         else s0)"

text \<open>
  \<^verbatim>\<open>main\<close> up to the listing of the image directory. The call of
  \<^verbatim>\<open>np.random.seed\<close> in line 39 is outside every \<^verbatim>\<open>try\<close>: when it raises, the
  run ends there, before the result directory or the log file is touched.
\<close>

definition startup ::
  "('img, 'r, 'inst) env \<Rightarrow> args \<Rightarrow> ('img, 'r) world \<Rightarrow> string + ('img, 'r) state" where
  "startup E A W = (if seed_accepted (seed A) then Inr (started E A W) else Inl seed_error)"

text \<open>\<^verbatim>\<open>main\<close> up to the end of the loops, over a catalog.\<close>

definition run ::
  "('img, 'r, 'inst) env \<Rightarrow> args \<Rightarrow> (op_class \<times> string) list \<Rightarrow> ('img, 'r) world
     \<Rightarrow> string + ('img, 'r) state" where
  "run E A catalog W =
     (case startup E A W of
        Inl e \<Rightarrow> Inl e
      | Inr s \<Rightarrow> Inr (file_loop E A catalog (png_files (w_listing W)) s))"

text \<open>\<^verbatim>\<open>json.dump(log_data, log_file, indent=4)\<close> into the log file.\<close>

definition save_log :: "('img, 'r) state \<Rightarrow> ('img, 'r) state" where
  "save_log s =
     s\<lparr>files := (files s)(log_file_name \<mapsto> LogDoc (log_data s)),
       trace := trace s @ [Wrote log_file_name (LogDoc (log_data s))]\<rparr>"

text \<open>
  \<^verbatim>\<open>main\<close>: the exception of the seeding, or the state in which the run ends.
\<close>

definition main ::
  "('img, 'r, 'inst) env \<Rightarrow> args \<Rightarrow> ('img, 'r) world \<Rightarrow> string + ('img, 'r) state" where
  "main E A W =
     (case run E A augmentation_functions W of
        Inl e \<Rightarrow> Inl e
      | Inr s \<Rightarrow> Inr (save_log s))"

section \<open>The enumeration of WorkUnits and the observations made on a run\<close>

text \<open>
  The states in which the loops and the whole of \<^verbatim>\<open>main\<close> end when the seed is
  accepted.
\<close>

definition processed ::
  "('img, 'r, 'inst) env \<Rightarrow> args \<Rightarrow> (op_class \<times> string) list \<Rightarrow> ('img, 'r) world
     \<Rightarrow> ('img, 'r) state" where
  "processed E A catalog W = file_loop E A catalog (png_files (w_listing W)) (started E A W)"

definition finished ::
  "('img, 'r, 'inst) env \<Rightarrow> args \<Rightarrow> ('img, 'r) world \<Rightarrow> ('img, 'r) state" where
  "finished E A W = save_log (processed E A augmentation_functions W)"

text \<open>
  The WorkUnits of one image in the order the spec gives: operators in catalog order,
  and for each operator the magnitudes from 1 to the maximum.
\<close>

definition work_units ::
  "(op_class \<times> string) list \<Rightarrow> int \<Rightarrow> ((op_class \<times> string) \<times> int) list" where
  "work_units catalog mmax = concat (map (\<lambda>fn. map (\<lambda>mag. (fn, mag)) [1..mmax]) catalog)"

text \<open>Running a flat list of WorkUnits one after the other, up to the first exception.\<close>

fun unit_loop ::
  "('img, 'r, 'inst) env \<Rightarrow> string \<Rightarrow> 'img \<Rightarrow> ((op_class \<times> string) \<times> int) list
     \<Rightarrow> ('img, 'r) state \<Rightarrow> outcome \<times> ('img, 'r) state" where
  "unit_loop E file_name img [] s = (Done, s)"
| "unit_loop E file_name img (u # us) s =
     (case work_unit E file_name img (fst u) (snd u) s of
        (Raised e, s1) \<Rightarrow> (Raised e, s1)
      | (Done, s1) \<Rightarrow> unit_loop E file_name img us s1)"

text \<open>The success record of a WorkUnit of an image.\<close>

definition success_entry :: "string \<Rightarrow> (op_class \<times> string) \<times> int \<Rightarrow> log_entry" where
  "success_entry file_name u =
     Success file_name (snd (fst u)) (snd u) (output_name file_name (snd (fst u)) (snd u))"

text \<open>
  The effect of a step on the files of the result directory, and the kinds of steps.
\<close>

fun apply_event :: "'img event \<Rightarrow> (string \<rightharpoonup> 'img content) \<Rightarrow> (string \<rightharpoonup> 'img content)" where
  "apply_event (Wrote n c) fs = fs(n \<mapsto> c)"
| "apply_event (Seeded i) fs = fs"
| "apply_event (Opened f) fs = fs"
| "apply_event (Constructed c) fs = fs"
| "apply_event (Invoked c m) fs = fs"

fun is_log_write :: "'img event \<Rightarrow> bool" where
  "is_log_write (Wrote n c) = (n = log_file_name)"
| "is_log_write (Seeded i) = False"
| "is_log_write (Opened f) = False"
| "is_log_write (Constructed c) = False"
| "is_log_write (Invoked c m) = False"

fun is_seeded :: "'img event \<Rightarrow> bool" where
  "is_seeded (Seeded i) = True"
| "is_seeded (Wrote n c) = False"
| "is_seeded (Opened f) = False"
| "is_seeded (Constructed c) = False"
| "is_seeded (Invoked c m) = False"

fun is_opened :: "'img event \<Rightarrow> bool" where
  "is_opened (Opened f) = True"
| "is_opened (Seeded i) = False"
| "is_opened (Wrote n c) = False"
| "is_opened (Constructed c) = False"
| "is_opened (Invoked c m) = False"

fun is_op_event :: "'img event \<Rightarrow> bool" where
  "is_op_event (Constructed c) = True"
| "is_op_event (Invoked c m) = True"
| "is_op_event (Opened f) = False"
| "is_op_event (Seeded i) = False"
| "is_op_event (Wrote n c) = False"

text \<open>
  The operator steps of one WorkUnit: a construction, followed by a call of the class
  just constructed unless the construction raised.
\<close>

fun is_call_chunk :: "'img event list \<Rightarrow> bool" where
  "is_call_chunk [Constructed c] = True"
| "is_call_chunk [Constructed c, Invoked c' m] = (c = c')"
| "is_call_chunk evs = False"

text \<open>
  From \<open>s\<close> to \<open>s'\<close> steps were added that neither write the log file nor seed the
  generator, and the files changed as these steps say.
\<close>

definition quiet_extension :: "('img, 'r) state \<Rightarrow> ('img, 'r) state \<Rightarrow> bool" where
  "quiet_extension s s' =
     (\<exists>evs. trace s' = trace s @ evs \<and> files s' = fold apply_event evs (files s) \<and>
        filter is_log_write evs = [] \<and> filter is_seeded evs = [])"

text \<open>
  From \<open>s\<close> to \<open>s'\<close> the operator steps added are those of a sequence of WorkUnits.
\<close>

definition fresh_instances :: "('img, 'r) state \<Rightarrow> ('img, 'r) state \<Rightarrow> bool" where
  "fresh_instances s s' =
     (\<exists>chunks. filter is_op_event (trace s') = filter is_op_event (trace s) @ concat chunks \<and>
        list_all is_call_chunk chunks)"

text \<open>
  A small environment, arguments and directory for concrete runs: images are numbers,
  \<^verbatim>\<open>bad.png\<close> cannot be opened, and nothing else raises.
\<close>

definition example_env :: "(nat, nat, op_class) env" where
  "example_env =
     \<lparr>np_random_seed = (\<lambda>i. nat \<bar>i\<bar>),
      image_open_resize =
        (\<lambda>f w h. if f = ''bad.png'' then Inl ''cannot identify image file'' else Inr (length f)),
      construct = (\<lambda>c r. (Inr c, r)),
      call = (\<lambda>inst img mag r. (Inr (img + nat mag + r), r + 1)),
      image_save = (\<lambda>img name. None)\<rparr>"

definition example_args :: args where
  "example_args = \<lparr>width = 200, height = 64, seed = 0, max_mag = 2\<rparr>"

definition example_world :: "(nat, nat) world" where
  "example_world =
     \<lparr>w_rng = 5, w_result_dir = None, w_listing = [''a.png'', ''notes.txt'', ''bad.png'']\<rparr>"

text \<open>
  The records of one image: the success records of the first \<open>k\<close> WorkUnits, in order,
  and after them one failure record exactly when the image was left early.
\<close>

definition image_block ::
  "((op_class \<times> string) \<times> int) list \<Rightarrow> string \<Rightarrow> log_entry list \<Rightarrow> bool" where
  "image_block units f b =
     (\<exists>k fails. k \<le> length units \<and> b = map (success_entry f) (take k units) @ fails \<and>
        (fails = [] \<and> k = length units \<or>
         (\<exists>e. fails = [Failure f e]) \<and> (k < length units \<or> k = 0)))"

text \<open>
  No operator constructor, operator call or save raises.
\<close>

definition operators_total :: "('img, 'r, 'inst) env \<Rightarrow> bool" where
  "operators_total E =
     ((\<forall>c r. \<exists>inst r1. construct E c r = (Inr inst, r1)) \<and>
      (\<forall>inst img mag r. \<exists>aug r2. call E inst img mag r = (Inr aug, r2)) \<and>
      (\<forall>img name. image_save E img name = None))"

text \<open>
  Arguments with no magnitude to run, and a directory without images.
\<close>

definition zero_args :: args where
  "zero_args = \<lparr>width = 200, height = 64, seed = 0, max_mag = 0\<rparr>"

definition empty_world :: "(nat, nat) world" where
  "empty_world = \<lparr>w_rng = 5, w_result_dir = None, w_listing = [''notes.txt'']\<rparr>"

text \<open>
  The failure records of the images that cannot be opened.
\<close>

definition open_failure_records ::
  "('img, 'r, 'inst) env \<Rightarrow> args \<Rightarrow> string list \<Rightarrow> log_entry list" where
  "open_failure_records E A fs =
     concat (map (\<lambda>f. case image_open_resize E f (width A) (height A) of
                          Inl e \<Rightarrow> [Failure f e] | Inr img \<Rightarrow> []) fs)"

text \<open>
  The classes constructed in a sequence of steps, in order.
\<close>

fun constructed_class :: "'img event \<Rightarrow> op_class list" where
  "constructed_class (Constructed c) = [c]"
| "constructed_class (Invoked c m) = []"
| "constructed_class (Opened f) = []"
| "constructed_class (Seeded i) = []"
| "constructed_class (Wrote n c) = []"

definition constructions :: "'img event list \<Rightarrow> op_class list" where
  "constructions tr = concat (map constructed_class tr)"

text \<open>
  From \<open>s\<close> to \<open>s'\<close> at least as many operators were constructed as success records
  were added.
\<close>

definition construction_per_artifact :: "('img, 'r) state \<Rightarrow> ('img, 'r) state \<Rightarrow> bool" where
  "construction_per_artifact s s' =
     (length (constructions (trace s)) + length (filter is_success (log_data s')) \<le>
      length (constructions (trace s')) + length (filter is_success (log_data s)))"

text \<open>
  Every image file of \<open>s\<close> is still an image file in \<open>s'\<close>, and no image was opened
  between \<open>s\<close> and \<open>s'\<close>.
\<close>

definition keeps_images :: "('img, 'r) state \<Rightarrow> ('img, 'r) state \<Rightarrow> bool" where
  "keeps_images s s' =
     (\<forall>n. (\<exists>aug. files s n = Some (ImageData aug)) \<longrightarrow> (\<exists>aug. files s' n = Some (ImageData aug)))"

definition same_opened :: "('img, 'r) state \<Rightarrow> ('img, 'r) state \<Rightarrow> bool" where
  "same_opened s s' = (filter is_opened (trace s') = filter is_opened (trace s))"

text \<open>
  An environment in which every operator call at magnitude 2 raises.
\<close>

definition failing_env :: "(nat, nat, op_class) env" where
  "failing_env =
     \<lparr>np_random_seed = (\<lambda>i. nat \<bar>i\<bar>),
      image_open_resize = (\<lambda>f w h. Inr (length f)),
      construct = (\<lambda>c r. (Inr c, r)),
      call = (\<lambda>inst img mag r.
        if mag = 2 then (Inl ''operator failed'', r + 1) else (Inr img, r + 1)),
      image_save = (\<lambda>img name. None)\<rparr>"

text \<open>
  The steps that the order of the WorkUnits is read from: opening an image and calling
  an operator at a magnitude.
\<close>

fun is_step :: "'img event \<Rightarrow> bool" where
  "is_step (Opened f) = True"
| "is_step (Invoked c m) = True"
| "is_step (Constructed c) = False"
| "is_step (Seeded i) = False"
| "is_step (Wrote n c) = False"

definition invoked_event :: "(op_class \<times> string) \<times> int \<Rightarrow> 'img event" where
  "invoked_event u = Invoked (fst (fst u)) (snd u)"

text \<open>
  The records of an image name are contiguous in the log, and no record of an image
  name follows a failure record of that name.
\<close>

definition blocks_by_file :: "log_entry list \<Rightarrow> bool" where
  "blocks_by_file L =
     (\<forall>i j k. i < j \<and> j < k \<and> k < length L \<and> entry_file (L ! i) = entry_file (L ! k) \<longrightarrow>
        entry_file (L ! j) = entry_file (L ! i))"

definition failure_ends_block :: "log_entry list \<Rightarrow> bool" where
  "failure_ends_block L =
     (\<forall>i j. i < j \<and> j < length L \<and> is_failure (L ! i) \<longrightarrow>
        entry_file (L ! j) \<noteq> entry_file (L ! i))"

text \<open>
  The state with a given generator and nothing else, and the state reached from \<open>s\<close>
  by what a run from such a state did.
\<close>

definition blank :: "'r \<Rightarrow> ('img, 'r) state" where
  "blank r = \<lparr>rng = r, files = Map.empty, log_data = [], trace = []\<rparr>"

definition extend :: "('img, 'r) state \<Rightarrow> ('img, 'r) state \<Rightarrow> ('img, 'r) state" where
  "extend s b =
     s\<lparr>rng := rng b, files := fold apply_event (trace b) (files s),
       log_data := log_data s @ log_data b, trace := trace s @ trace b\<rparr>"

text \<open>
  A directory that differs from the example in the generator state and in the result
  directory, and one whose listing holds the names \<^verbatim>\<open>.png\<close> and \<^verbatim>\<open>.png.png\<close>.
\<close>

definition other_world :: "(nat, nat) world" where
  "other_world =
     \<lparr>w_rng = 77,
      w_result_dir = Some [log_file_name \<mapsto> OtherData ''old log'', ''a_curve_1.png'' \<mapsto> ImageData 0],
      w_listing = [''a.png'', ''notes.txt'', ''bad.png'']\<rparr>"

definition hidden_world :: "(nat, nat) world" where
  "hidden_world = \<lparr>w_rng = 5, w_result_dir = None, w_listing = [''.png'', ''.png.png'']\<rparr>"

text \<open>
  What one image adds to the steps (opening the image and calling operators) and to the
  log of a run, given the WorkUnits of an image: the image is opened; then either all
  WorkUnits are called and recorded, in order, or an exception ends the image after
  \<open>k\<close> recorded WorkUnits, the next one having been called or not, and one failure
  record follows the \<open>k\<close> success records.
\<close>

definition image_run ::
  "((op_class \<times> string) \<times> int) list \<Rightarrow> string \<Rightarrow> 'img event list \<Rightarrow> log_entry list \<Rightarrow> bool"
  where
  "image_run units f steps block =
     (\<exists>k j fails.
        steps = Opened f # map invoked_event (take j units) \<and>
        block = map (success_entry f) (take k units) @ fails \<and>
        (fails = [] \<and> k = length units \<and> j = length units \<or>
         (\<exists>e. fails = [Failure f e]) \<and>
           (k < length units \<and> (j = k \<or> j = Suc k) \<or> k = 0 \<and> j = 0)))"

text \<open>
  A directory with two images, and an environment in which the constructor of
  \<^verbatim>\<open>Distort\<close> and the save of \<^verbatim>\<open>a_curve_1.png\<close> raise.
\<close>

definition good_world :: "(nat, nat) world" where
  "good_world = \<lparr>w_rng = 5, w_result_dir = None, w_listing = [''a.png'', ''b.png'']\<rparr>"

definition broken_env :: "(nat, nat, op_class) env" where
  "broken_env =
     \<lparr>np_random_seed = (\<lambda>i. nat \<bar>i\<bar>),
      image_open_resize = (\<lambda>f w h. Inr (length f)),
      construct = (\<lambda>c r. if c = Distort then (Inl ''constructor failed'', r) else (Inr c, r)),
      call = (\<lambda>inst img mag r. (Inr img, r + 1)),
      image_save = (\<lambda>img name. if name = ''a_curve_1.png'' then Some ''disk full'' else None)\<rparr>"

section \<open>The nested loops run the WorkUnits in order\<close>

lemma unit_loop_append:
  "unit_loop E f img (us @ vs) s =
     (case unit_loop E f img us s of
        (Raised e, s1) \<Rightarrow> (Raised e, s1)
      | (Done, s1) \<Rightarrow> unit_loop E f img vs s1)"
  by (induction us arbitrary: s) (auto split: prod.splits outcome.splits)

lemma mag_loop_unit_loop:
  "mag_loop E f img fn mags s = unit_loop E f img (map (\<lambda>mag. (fn, mag)) mags) s"
  by (induction mags arbitrary: s) (auto split: prod.splits outcome.splits)

lemma func_loop_unit_loop:
  "func_loop E mmax f img catalog s = unit_loop E f img (work_units catalog mmax) s"
  by (induction catalog arbitrary: s)
    (auto simp: work_units_def unit_loop_append mag_loop_unit_loop
      split: prod.splits outcome.splits)

text \<open>The four ways a WorkUnit can end.\<close>

lemma work_unit_cases:
  obtains
    (construct_raises) e r1 where
      "construct E (fst fn) (rng s) = (Inl e, r1)"
      "work_unit E f img fn mag s =
         (Raised e, s\<lparr>rng := r1, trace := trace s @ [Constructed (fst fn)]\<rparr>)"
  | (call_raises) inst r1 e r2 where
      "construct E (fst fn) (rng s) = (Inr inst, r1)"
      "call E inst img mag r1 = (Inl e, r2)"
      "work_unit E f img fn mag s =
         (Raised e,
          s\<lparr>rng := r2, trace := trace s @ [Constructed (fst fn), Invoked (fst fn) mag]\<rparr>)"
  | (save_raises) inst r1 aug r2 e where
      "construct E (fst fn) (rng s) = (Inr inst, r1)"
      "call E inst img mag r1 = (Inr aug, r2)"
      "image_save E aug (output_name f (snd fn) mag) = Some e"
      "work_unit E f img fn mag s =
         (Raised e,
          s\<lparr>rng := r2, trace := trace s @ [Constructed (fst fn), Invoked (fst fn) mag]\<rparr>)"
  | (saved) inst r1 aug r2 where
      "construct E (fst fn) (rng s) = (Inr inst, r1)"
      "call E inst img mag r1 = (Inr aug, r2)"
      "image_save E aug (output_name f (snd fn) mag) = None"
      "work_unit E f img fn mag s =
         (Done,
          s\<lparr>rng := r2,
            files := (files s)(output_name f (snd fn) mag \<mapsto> ImageData aug),
            log_data := log_data s @ [success_entry f (fn, mag)],
            trace := trace s @ [Constructed (fst fn), Invoked (fst fn) mag,
              Wrote (output_name f (snd fn) mag) (ImageData aug)]\<rparr>)"
proof (cases "construct E (fst fn) (rng s)")
  case c: (Pair cres r1)
  show ?thesis
  proof (cases cres)
    case (Inl e)
    then show ?thesis
      using c construct_raises
      by (simp add: work_unit_def apply_augmentation_def)
  next
    case i: (Inr inst)
    show ?thesis
    proof (cases "call E inst img mag r1")
      case k: (Pair res r2)
      show ?thesis
      proof (cases res)
        case (Inl e)
        then show ?thesis
          using c i k call_raises
          by (simp add: work_unit_def apply_augmentation_def)
      next
        case a: (Inr aug)
        show ?thesis
        proof (cases "image_save E aug (output_name f (snd fn) mag)")
          case None
          then show ?thesis
            using c i k a saved
            by (simp add: work_unit_def apply_augmentation_def success_entry_def Let_def)
        next
          case (Some e)
          then show ?thesis
            using c i k a save_raises
            by (simp add: work_unit_def apply_augmentation_def)
        qed
      qed
    qed
  qed
qed

text \<open>
  A relation between states that holds of every elementary step, and is reflexive and
  transitive, holds between the start and the end of each loop.
\<close>

lemma unit_loop_rel:
  assumes refl: "\<And>s. R s s"
    and trans: "\<And>a b c. R a b \<Longrightarrow> R b c \<Longrightarrow> R a c"
    and step: "\<And>fn mag s. R s (snd (work_unit E f img fn mag s))"
  shows "R s (snd (unit_loop E f img us s))"
proof (induction us arbitrary: s)
  case Nil
  show ?case by (simp add: refl)
next
  case (Cons u us)
  obtain out s1 where w: "work_unit E f img (fst u) (snd u) s = (out, s1)"
    by (cases "work_unit E f img (fst u) (snd u) s")
  have r1: "R s s1" using step [of s "fst u" "snd u"] w by simp
  show ?case
  proof (cases out)
    case Done
    then show ?thesis using w r1 Cons.IH [of s1] trans by auto
  next
    case (Raised e)
    then show ?thesis using w r1 by simp
  qed
qed

lemma process_file_rel:
  assumes refl: "\<And>s. R s s"
    and trans: "\<And>a b c. R a b \<Longrightarrow> R b c \<Longrightarrow> R a c"
    and step: "\<And>f img fn mag s. R s (snd (work_unit E f img fn mag s))"
    and opened: "\<And>s f. R s (s\<lparr>trace := trace s @ [Opened f]\<rparr>)"
    and failed: "\<And>s f e. R s (s\<lparr>log_data := log_data s @ [Failure f e]\<rparr>)"
  shows "R s (process_file E A catalog f s)"
proof -
  let ?s0 = "s\<lparr>trace := trace s @ [Opened f]\<rparr>"
  have r0: "R s ?s0" by (rule opened)
  have r1: "R s (snd (try_block E A catalog f s))"
  proof (cases "image_open_resize E f (width A) (height A)")
    case (Inl e)
    then show ?thesis using r0 by (simp add: try_block_def)
  next
    case (Inr img)
    have "R ?s0 (snd (unit_loop E f img (work_units catalog (max_mag A)) ?s0))"
      using refl trans step by (rule unit_loop_rel [where R = R])
    then show ?thesis using Inr r0 trans
      by (auto simp add: try_block_def func_loop_unit_loop)
  qed
  show ?thesis
  proof (cases "try_block E A catalog f s")
    case (Pair out s1)
    then show ?thesis using r1 failed [of s1 f] trans
      by (cases out) (auto simp: process_file_def)
  qed
qed

lemma file_loop_rel:
  assumes refl: "\<And>s. R s s"
    and trans: "\<And>a b c. R a b \<Longrightarrow> R b c \<Longrightarrow> R a c"
    and step: "\<And>f img fn mag s. R s (snd (work_unit E f img fn mag s))"
    and opened: "\<And>s f. R s (s\<lparr>trace := trace s @ [Opened f]\<rparr>)"
    and failed: "\<And>s f e. R s (s\<lparr>log_data := log_data s @ [Failure f e]\<rparr>)"
  shows "R s (file_loop E A catalog fs s)"
proof (induction fs arbitrary: s)
  case Nil
  show ?case by (simp add: refl)
next
  case (Cons f fs)
  have "R s (process_file E A catalog f s)"
    using refl trans step opened failed by (rule process_file_rel [where R = R])
  then show ?case using Cons.IH trans by auto
qed

lemma output_name_not_log: "output_name f n m \<noteq> log_file_name"
proof
  assume "output_name f n m = log_file_name"
  then have "last (output_name f n m) = last log_file_name" by simp
  then show False by (simp add: output_name_def log_file_name_def Let_def)
qed

lemma quiet_extension_refl: "quiet_extension s s"
  by (simp add: quiet_extension_def)

lemma quiet_extension_trans:
  assumes "quiet_extension a b" "quiet_extension b c"
  shows "quiet_extension a c"
proof -
  obtain e1 where 1: "trace b = trace a @ e1" "files b = fold apply_event e1 (files a)"
    "filter is_log_write e1 = []" "filter is_seeded e1 = []"
    using assms(1) unfolding quiet_extension_def by blast
  obtain e2 where 2: "trace c = trace b @ e2" "files c = fold apply_event e2 (files b)"
    "filter is_log_write e2 = []" "filter is_seeded e2 = []"
    using assms(2) unfolding quiet_extension_def by blast
  have "trace c = trace a @ (e1 @ e2)" using 1 2 by simp
  moreover have "files c = fold apply_event (e1 @ e2) (files a)" using 1 2 by simp
  moreover have "filter is_log_write (e1 @ e2) = []" using 1 2 by simp
  moreover have "filter is_seeded (e1 @ e2) = []" using 1 2 by simp
  ultimately show ?thesis unfolding quiet_extension_def by blast
qed

lemma quiet_extension_work_unit: "quiet_extension s (snd (work_unit E f img fn mag s))"
  by (cases rule: work_unit_cases [where E = E and fn = fn and s = s and img = img and mag = mag and f = f])
    (auto simp: quiet_extension_def output_name_not_log)

lemma quiet_extension_opened: "quiet_extension s (s\<lparr>trace := trace s @ [Opened f]\<rparr>)"
  by (simp add: quiet_extension_def)

lemma quiet_extension_failed: "quiet_extension s (s\<lparr>log_data := log_data s @ [Failure f e]\<rparr>)"
  by (simp add: quiet_extension_def)

lemma quiet_extension_file_loop: "quiet_extension s (file_loop E A catalog fs s)"
  by (rule file_loop_rel [where R = quiet_extension])
    (auto intro: quiet_extension_refl quiet_extension_trans quiet_extension_work_unit
      quiet_extension_opened quiet_extension_failed)

lemma fresh_instances_refl: "fresh_instances s s"
  unfolding fresh_instances_def by (rule exI [of _ "[]"]) simp

lemma fresh_instances_trans:
  assumes "fresh_instances a b" "fresh_instances b c"
  shows "fresh_instances a c"
proof -
  obtain c1 where 1: "filter is_op_event (trace b) = filter is_op_event (trace a) @ concat c1"
    "list_all is_call_chunk c1"
    using assms(1) unfolding fresh_instances_def by blast
  obtain c2 where 2: "filter is_op_event (trace c) = filter is_op_event (trace b) @ concat c2"
    "list_all is_call_chunk c2"
    using assms(2) unfolding fresh_instances_def by blast
  have "filter is_op_event (trace c) = filter is_op_event (trace a) @ concat (c1 @ c2)"
    using 1 2 by simp
  moreover have "list_all is_call_chunk (c1 @ c2)" using 1 2 by simp
  ultimately show ?thesis unfolding fresh_instances_def by blast
qed

lemma fresh_instances_work_unit: "fresh_instances s (snd (work_unit E f img fn mag s))"
proof (cases rule: work_unit_cases [where E = E and fn = fn and s = s and img = img and mag = mag and f = f])
  case (construct_raises e r1)
  then show ?thesis unfolding fresh_instances_def
    by (intro exI [of _ "[[Constructed (fst fn)]]"]) simp
next
  case (call_raises inst r1 e r2)
  then show ?thesis unfolding fresh_instances_def
    by (intro exI [of _ "[[Constructed (fst fn), Invoked (fst fn) mag]]"]) simp
next
  case (save_raises inst r1 aug r2 e)
  then show ?thesis unfolding fresh_instances_def
    by (intro exI [of _ "[[Constructed (fst fn), Invoked (fst fn) mag]]"]) simp
next
  case (saved inst r1 aug r2)
  then show ?thesis unfolding fresh_instances_def
    by (intro exI [of _ "[[Constructed (fst fn), Invoked (fst fn) mag]]"]) simp
qed

lemma fresh_instances_file_loop: "fresh_instances s (file_loop E A catalog fs s)"
proof (rule file_loop_rel [where R = fresh_instances])
  show "\<And>s. fresh_instances s s" by (rule fresh_instances_refl)
  show "\<And>a b c. fresh_instances a b \<Longrightarrow> fresh_instances b c \<Longrightarrow> fresh_instances a c"
    by (rule fresh_instances_trans)
  show "\<And>f img fn mag s. fresh_instances s (snd (work_unit E f img fn mag s))"
    by (rule fresh_instances_work_unit)
  show "\<And>s f. fresh_instances s (s\<lparr>trace := trace s @ [Opened f]\<rparr>)"
    unfolding fresh_instances_def by (intro exI [of _ "[]"]) simp
  show "\<And>s f e. fresh_instances s (s\<lparr>log_data := log_data s @ [Failure f e]\<rparr>)"
    unfolding fresh_instances_def by (intro exI [of _ "[]"]) simp
qed

lemma fold_apply_event_no_log:
  "filter is_log_write evs = [] \<Longrightarrow> fold apply_event evs fs log_file_name = fs log_file_name"
proof (induction evs arbitrary: fs)
  case Nil
  show ?case by simp
next
  case (Cons e evs)
  then show ?case by (cases e) (auto split: if_splits)
qed

lemma fold_apply_event_keeps: "fs n \<noteq> None \<Longrightarrow> fold apply_event evs fs n \<noteq> None"
proof (induction evs arbitrary: fs)
  case Nil
  then show ?case by simp
next
  case (Cons e evs)
  then show ?case by (cases e) auto
qed

lemma fold_apply_event_written:
  "Wrote n c \<in> set evs \<Longrightarrow> fold apply_event evs fs n \<noteq> None"
proof (induction evs arbitrary: fs)
  case Nil
  then show ?case by simp
next
  case (Cons e evs)
  show ?case
  proof (cases "e = Wrote n c")
    case True
    then show ?thesis by (simp add: fold_apply_event_keeps)
  next
    case False
    then have "Wrote n c \<in> set evs" using Cons.prems by simp
    then show ?thesis using Cons.IH by simp
  qed
qed

lemma filter_take_empty: "filter P xs = [] \<Longrightarrow> filter P (take k xs) = []"
  by (auto simp: filter_empty_conv dest: in_set_takeD)

lemma quiet_extension_log_file:
  "quiet_extension s s' \<Longrightarrow> files s' log_file_name = files s log_file_name"
  by (auto simp: quiet_extension_def fold_apply_event_no_log)

section \<open>The log file\<close>

lemma started_log_file:
  "files (started E A W) log_file_name =
     (case w_result_dir W of
        None \<Rightarrow> Some (LogDoc [])
      | Some d \<Rightarrow> (case d log_file_name of None \<Rightarrow> Some (LogDoc []) | Some c \<Rightarrow> Some c))
   \<and> (\<forall>n. n \<noteq> log_file_name \<longrightarrow>
         files (started E A W) n = (case w_result_dir W of None \<Rightarrow> None | Some d \<Rightarrow> d n))
   \<and> filter is_opened (trace (started E A W)) = []
   \<and> filter is_op_event (trace (started E A W)) = []
   \<and> quiet_extension (started E A W) (processed E A catalog W)
   \<and> files (processed E A catalog W) log_file_name = files (started E A W) log_file_name
   \<and> files (finished E A W) log_file_name =
       Some (LogDoc (log_data (processed E A augmentation_functions W)))"
proof -
  have q: "quiet_extension (started E A W) (processed E A catalog W)"
    unfolding processed_def by (rule quiet_extension_file_loop)
  have 1: "files (started E A W) log_file_name =
     (case w_result_dir W of
        None \<Rightarrow> Some (LogDoc [])
      | Some d \<Rightarrow> (case d log_file_name of None \<Rightarrow> Some (LogDoc []) | Some c \<Rightarrow> Some c))"
    by (auto simp: started_def Let_def split: option.splits)
  have 2: "\<forall>n. n \<noteq> log_file_name \<longrightarrow>
         files (started E A W) n = (case w_result_dir W of None \<Rightarrow> None | Some d \<Rightarrow> d n)"
    by (auto simp: started_def Let_def split: option.splits)
  have 3: "filter is_opened (trace (started E A W)) = []"
    by (simp add: started_def Let_def)
  have 4: "filter is_op_event (trace (started E A W)) = []"
    by (simp add: started_def Let_def)
  have 5: "files (processed E A catalog W) log_file_name = files (started E A W) log_file_name"
    using q by (rule quiet_extension_log_file)
  have 6: "files (finished E A W) log_file_name =
       Some (LogDoc (log_data (processed E A augmentation_functions W)))"
    by (simp add: finished_def save_log_def)
  show ?thesis using q 1 2 3 4 5 6 by blast
qed

lemma finished_log_writes:
  "\<exists>evs. trace (finished E A W) =
            trace (started E A W) @ evs @ [Wrote log_file_name (LogDoc (log_data (finished E A W)))]
     \<and> filter is_log_write evs = []
     \<and> log_data (finished E A W) = log_data (processed E A augmentation_functions W)
     \<and> (\<forall>k\<le>length evs.
           fold apply_event (take k evs) (files (started E A W)) log_file_name =
             files (started E A W) log_file_name)
     \<and> (\<forall>k\<le>length evs. \<forall>n c. Wrote n c \<in> set (take k evs) \<longrightarrow>
           fold apply_event (take k evs) (files (started E A W)) n \<noteq> None)
     \<and> files (finished E A W) =
         (fold apply_event evs (files (started E A W)))
           (log_file_name \<mapsto> LogDoc (log_data (finished E A W)))"
proof -
  let ?s0 = "started E A W" and ?s1 = "processed E A augmentation_functions W"
  have "quiet_extension ?s0 ?s1"
    unfolding processed_def by (rule quiet_extension_file_loop)
  then obtain evs where e: "trace ?s1 = trace ?s0 @ evs"
      "files ?s1 = fold apply_event evs (files ?s0)" "filter is_log_write evs = []"
    unfolding quiet_extension_def by blast
  have l: "log_data (finished E A W) = log_data ?s1" by (simp add: finished_def save_log_def)
  have t: "trace (finished E A W) =
      trace ?s0 @ evs @ [Wrote log_file_name (LogDoc (log_data (finished E A W)))]"
    using e(1) by (simp add: finished_def save_log_def)
  have p: "\<forall>k\<le>length evs.
           fold apply_event (take k evs) (files ?s0) log_file_name = files ?s0 log_file_name"
    using e(3) by (simp add: fold_apply_event_no_log filter_take_empty)
  have a: "\<forall>k\<le>length evs. \<forall>n c. Wrote n c \<in> set (take k evs) \<longrightarrow>
           fold apply_event (take k evs) (files ?s0) n \<noteq> None"
    using fold_apply_event_written by fastforce
  have f: "files (finished E A W) =
      (fold apply_event evs (files ?s0))(log_file_name \<mapsto> LogDoc (log_data (finished E A W)))"
    using e(2) by (simp add: finished_def save_log_def)
  show ?thesis using t e(3) l p a f by blast
qed

section \<open>The records of one image\<close>

lemma work_unit_Done:
  assumes "work_unit E f img fn mag s = (Done, s1)"
  shows "log_data s1 = log_data s @ [success_entry f (fn, mag)]"
    and "\<exists>aug. files s1 = (files s)(output_name f (snd fn) mag \<mapsto> ImageData aug)"
proof -
  show "log_data s1 = log_data s @ [success_entry f (fn, mag)]"
    using assms
    by (cases rule: work_unit_cases
          [where E = E and fn = fn and s = s and img = img and mag = mag and f = f]) auto
  show "\<exists>aug. files s1 = (files s)(output_name f (snd fn) mag \<mapsto> ImageData aug)"
    using assms
    by (cases rule: work_unit_cases
          [where E = E and fn = fn and s = s and img = img and mag = mag and f = f]) auto
qed

lemma work_unit_Raised:
  assumes "work_unit E f img fn mag s = (Raised e, s1)"
  shows "log_data s1 = log_data s" and "files s1 = files s"
proof -
  show "log_data s1 = log_data s"
    using assms
    by (cases rule: work_unit_cases
          [where E = E and fn = fn and s = s and img = img and mag = mag and f = f]) auto
  show "files s1 = files s"
    using assms
    by (cases rule: work_unit_cases
          [where E = E and fn = fn and s = s and img = img and mag = mag and f = f]) auto
qed

lemma unit_loop_Done:
  "unit_loop E f img us s = (Done, s1) \<Longrightarrow> log_data s1 = log_data s @ map (success_entry f) us"
proof (induction us arbitrary: s)
  case Nil
  then show ?case by simp
next
  case (Cons u us)
  obtain out s0 where w: "work_unit E f img (fst u) (snd u) s = (out, s0)"
    by (cases "work_unit E f img (fst u) (snd u) s")
  show ?case
  proof (cases out)
    case Done
    then have "unit_loop E f img us s0 = (Done, s1)" using Cons.prems w by simp
    then have "log_data s1 = log_data s0 @ map (success_entry f) us" by (rule Cons.IH)
    moreover have "log_data s0 = log_data s @ [success_entry f u]"
      using work_unit_Done(1) [of E f img "fst u" "snd u" s s0] w Done by simp
    ultimately show ?thesis by simp
  next
    case (Raised e)
    then show ?thesis using Cons.prems w by simp
  qed
qed

lemma unit_loop_Raised:
  "unit_loop E f img us s = (Raised e, s1) \<Longrightarrow>
     \<exists>pre u post s0. us = pre @ u # post \<and> unit_loop E f img pre s = (Done, s0) \<and>
       work_unit E f img (fst u) (snd u) s0 = (Raised e, s1)"
proof (induction us arbitrary: s)
  case Nil
  then show ?case by simp
next
  case (Cons u us)
  obtain out s0 where w: "work_unit E f img (fst u) (snd u) s = (out, s0)"
    by (cases "work_unit E f img (fst u) (snd u) s")
  show ?case
  proof (cases out)
    case Done
    then have "unit_loop E f img us s0 = (Raised e, s1)" using Cons.prems w by simp
    then obtain pre v post t where
      p: "us = pre @ v # post" "unit_loop E f img pre s0 = (Done, t)"
         "work_unit E f img (fst v) (snd v) t = (Raised e, s1)"
      using Cons.IH by blast
    have "u # us = (u # pre) @ v # post" using p(1) by simp
    moreover have "unit_loop E f img (u # pre) s = (Done, t)" using w Done p(2) by simp
    ultimately show ?thesis using p(3) by blast
  next
    case (Raised e')
    then have "work_unit E f img (fst u) (snd u) s = (Raised e, s1)" using Cons.prems w by simp
    moreover have "u # us = [] @ u # us" by simp
    moreover have "unit_loop E f img [] s = (Done, s)" by simp
    ultimately show ?thesis by blast
  qed
qed

lemma unit_loop_Raised_log:
  assumes "unit_loop E f img us s = (Raised e, s1)"
  shows "\<exists>k<length us. log_data s1 = log_data s @ map (success_entry f) (take k us)"
proof -
  obtain pre u post s0 where
    p: "us = pre @ u # post" "unit_loop E f img pre s = (Done, s0)"
       "work_unit E f img (fst u) (snd u) s0 = (Raised e, s1)"
    using unit_loop_Raised [OF assms] by blast
  have "log_data s1 = log_data s0" using p(3) by (rule work_unit_Raised(1))
  also have "\<dots> = log_data s @ map (success_entry f) pre" using p(2) by (rule unit_loop_Done)
  finally have "log_data s1 = log_data s @ map (success_entry f) (take (length pre) us)"
    using p(1) by simp
  moreover have "length pre < length us" using p(1) by simp
  ultimately show ?thesis by blast
qed

lemma image_block_open_failed: "image_block us f [Failure f e]"
  unfolding image_block_def
  by (rule exI [of _ 0], rule exI [of _ "[Failure f e]"]) simp

lemma image_block_all: "image_block us f (map (success_entry f) us)"
  unfolding image_block_def
  by (rule exI [of _ "length us"], rule exI [of _ "[]"]) simp

lemma image_block_raised:
  "k < length us \<Longrightarrow> image_block us f (map (success_entry f) (take k us) @ [Failure f e])"
  unfolding image_block_def
  by (rule exI [of _ k], rule exI [of _ "[Failure f e]"]) simp

lemma process_file_block:
  "\<exists>b. log_data (process_file E A catalog f s) = log_data s @ b \<and>
        image_block (work_units catalog (max_mag A)) f b"
proof (cases "image_open_resize E f (width A) (height A)")
  case (Inl e)
  then have "log_data (process_file E A catalog f s) = log_data s @ [Failure f e]"
    by (simp add: process_file_def try_block_def)
  then show ?thesis using image_block_open_failed by blast
next
  case (Inr img)
  let ?us = "work_units catalog (max_mag A)"
  let ?s0 = "s\<lparr>trace := trace s @ [Opened f]\<rparr>"
  obtain out s1 where u: "unit_loop E f img ?us ?s0 = (out, s1)"
    by (cases "unit_loop E f img ?us ?s0")
  then have t: "try_block E A catalog f s = (out, s1)"
    using Inr by (simp add: try_block_def func_loop_unit_loop)
  show ?thesis
  proof (cases out)
    case Done
    have "log_data s1 = log_data ?s0 @ map (success_entry f) ?us"
      using u Done unit_loop_Done [of E f img ?us ?s0 s1] by simp
    then have "log_data (process_file E A catalog f s) = log_data s @ map (success_entry f) ?us"
      using t Done by (simp add: process_file_def)
    then show ?thesis using image_block_all by blast
  next
    case (Raised e)
    obtain k where k: "k < length ?us"
        "log_data s1 = log_data ?s0 @ map (success_entry f) (take k ?us)"
      using u Raised unit_loop_Raised_log [of E f img ?us ?s0 e s1] by auto
    have "log_data (process_file E A catalog f s) =
        log_data s @ (map (success_entry f) (take k ?us) @ [Failure f e])"
      using t Raised k(2) by (simp add: process_file_def)
    then show ?thesis using image_block_raised [OF k(1)] by blast
  qed
qed

lemma file_loop_blocks:
  "\<exists>bs. log_data (file_loop E A catalog fs s) = log_data s @ concat bs \<and>
         list_all2 (image_block (work_units catalog (max_mag A))) fs bs"
proof (induction fs arbitrary: s)
  case Nil
  show ?case by simp
next
  case (Cons f fs)
  obtain b where b: "log_data (process_file E A catalog f s) = log_data s @ b"
      "image_block (work_units catalog (max_mag A)) f b"
    using process_file_block by blast
  obtain bs where bs:
      "log_data (file_loop E A catalog fs (process_file E A catalog f s)) =
         log_data (process_file E A catalog f s) @ concat bs"
      "list_all2 (image_block (work_units catalog (max_mag A))) fs bs"
    using Cons.IH by blast
  have "log_data (file_loop E A catalog (f # fs) s) = log_data s @ concat (b # bs)"
    using b(1) bs(1) by simp
  moreover have "list_all2 (image_block (work_units catalog (max_mag A))) (f # fs) (b # bs)"
    using b(2) bs(2) by simp
  ultimately show ?case by blast
qed

lemma run_blocks:
  "\<exists>bs. log_data (processed E A catalog W) = concat bs \<and>
         list_all2 (image_block (work_units catalog (max_mag A))) (png_files (w_listing W)) bs"
proof -
  have "log_data (started E A W) = []" by (simp add: started_def Let_def)
  then show ?thesis using file_loop_blocks [of E A catalog "png_files (w_listing W)" "started E A W"]
    by (simp add: processed_def)
qed

lemma length_work_units: "length (work_units catalog mmax) = length catalog * nat mmax"
  by (induction catalog) (simp_all add: work_units_def)

lemma image_block_length:
  assumes "image_block us f b" "us \<noteq> []"
  shows "1 \<le> length b" and "length b \<le> length us"
    and "length (filter is_failure b) \<le> 1"
    and "filter is_failure b = [] \<Longrightarrow> length b = length us"
proof -
  obtain k fails where k: "k \<le> length us" "b = map (success_entry f) (take k us) @ fails"
    "fails = [] \<and> k = length us \<or> (\<exists>e. fails = [Failure f e]) \<and> (k < length us \<or> k = 0)"
    using assms(1) unfolding image_block_def by blast
  have s: "filter is_failure (map (success_entry f) (take k us)) = []"
    by (simp add: filter_empty_conv success_entry_def)
  have n: "Suc 0 \<le> length us" using assms(2) by (cases us) simp_all
  show "1 \<le> length b" using k n by auto
  show "length b \<le> length us" using k n by auto
  show "length (filter is_failure b) \<le> 1" using k(2,3) s by auto
  show "length b = length us" if "filter is_failure b = []" using that k s by auto
qed

lemma blocks_count:
  assumes "list_all2 (image_block us) fs bs" "us \<noteq> []"
  shows "length fs \<le> length (concat bs)"
    and "length (concat bs) \<le> length fs * length us"
    and "length (filter is_failure (concat bs)) \<le> length fs"
    and "filter is_failure (concat bs) = [] \<Longrightarrow> length (concat bs) = length fs * length us"
  using assms(1)
proof (induction rule: list_all2_induct)
  case Nil
  {
    case 1 show ?case by simp
  next
    case 2 show ?case by simp
  next
    case 3 show ?case by simp
  next
    case 4 show ?case by simp
  }
next
  case (Cons f fs b bs)
  note bl = image_block_length [OF Cons.hyps(1) assms(2)]
  {
    case 1 show ?case using bl(1) Cons.IH(1) by simp
  next
    case 2 show ?case using bl(2) Cons.IH(2) by simp
  next
    case 3 show ?case using bl(3) Cons.IH(3) by simp
  next
    case 4
    then have "filter is_failure b = []" "filter is_failure (concat bs) = []" by simp_all
    then show ?case using bl(4) Cons.IH(4) by simp
  }
qed

lemma length_augmentation_functions: "length augmentation_functions = 27"
  by (simp add: augmentation_functions_def)

lemma log_data_main: "log_data (finished E A W) = log_data (processed E A augmentation_functions W)"
  by (simp add: finished_def save_log_def)

section \<open>Runs in which nothing raises, and images that cannot be opened\<close>

lemma operators_total_example: "operators_total example_env"
  by (simp add: operators_total_def example_env_def)

lemma work_unit_total:
  assumes "operators_total E"
  shows "fst (work_unit E f img fn mag s) = Done"
proof (cases rule: work_unit_cases
    [where E = E and fn = fn and s = s and img = img and mag = mag and f = f])
  case (construct_raises e r1)
  then show ?thesis using assms unfolding operators_total_def
    by (metis Inl_Inr_False prod.inject)
next
  case (call_raises inst r1 e r2)
  then show ?thesis using assms unfolding operators_total_def
    by (metis Inl_Inr_False prod.inject)
next
  case (save_raises inst r1 aug r2 e)
  then show ?thesis using assms unfolding operators_total_def by simp
next
  case (saved inst r1 aug r2)
  then show ?thesis by simp
qed

lemma unit_loop_total:
  assumes "operators_total E"
  shows "fst (unit_loop E f img us s) = Done"
proof (induction us arbitrary: s)
  case Nil
  show ?case by simp
next
  case (Cons u us)
  obtain out s1 where w: "work_unit E f img (fst u) (snd u) s = (out, s1)"
    by (cases "work_unit E f img (fst u) (snd u) s")
  then have "out = Done" using work_unit_total [OF assms, of f img "fst u" "snd u" s] by simp
  then show ?case using w Cons.IH [of s1] by simp
qed

lemma process_file_total:
  assumes "operators_total E" "image_open_resize E f (width A) (height A) = Inr img"
  shows "log_data (process_file E A catalog f s) =
           log_data s @ map (success_entry f) (work_units catalog (max_mag A))"
proof -
  let ?us = "work_units catalog (max_mag A)"
  let ?s0 = "s\<lparr>trace := trace s @ [Opened f]\<rparr>"
  obtain out s1 where u: "unit_loop E f img ?us ?s0 = (out, s1)"
    by (cases "unit_loop E f img ?us ?s0")
  then have d: "out = Done" using unit_loop_total [OF assms(1), of f img ?us ?s0] by simp
  have "log_data s1 = log_data ?s0 @ map (success_entry f) ?us"
    using u d unit_loop_Done [of E f img ?us ?s0 s1] by simp
  moreover have "try_block E A catalog f s = (Done, s1)"
    using u d assms(2) by (simp add: try_block_def func_loop_unit_loop)
  ultimately show ?thesis by (simp add: process_file_def)
qed

lemma process_file_open_failed:
  assumes "image_open_resize E f (width A) (height A) = Inl e"
  shows "process_file E A catalog f s =
           s\<lparr>trace := trace s @ [Opened f], log_data := log_data s @ [Failure f e]\<rparr>"
  using assms by (simp add: process_file_def try_block_def)

lemma png_files_example: "png_files (w_listing example_world) = [''a.png'', ''bad.png'']"
  by (simp add: png_files_def example_world_def endswith_def)

lemma log_data_startup: "log_data (started E A W) = []"
  by (simp add: started_def Let_def)

lemma log_data_example:
  "log_data (finished example_env example_args example_world) =
     map (success_entry ''a.png'') (work_units augmentation_functions 2) @
       [Failure ''bad.png'' ''cannot identify image file'']"
proof -
  have a: "image_open_resize example_env ''a.png'' (width example_args) (height example_args) =
      Inr 5"
    by (simp add: example_env_def)
  have b: "image_open_resize example_env ''bad.png'' (width example_args) (height example_args) =
      Inl ''cannot identify image file''"
    by (simp add: example_env_def)
  have m: "max_mag example_args = 2" by (simp add: example_args_def)
  show ?thesis
    unfolding log_data_main processed_def png_files_example
    using process_file_total [OF operators_total_example a, of augmentation_functions]
    by (simp add: process_file_open_failed [OF b] log_data_startup m)
qed

section \<open>How many records a run leaves\<close>

lemma example_record_count:
  "png_files (w_listing example_world) \<noteq> [] \<and> 1 \<le> max_mag example_args \<and>
   length (png_files (w_listing example_world)) = 2 \<and>
   length (log_data (finished example_env example_args example_world)) = 55 \<and>
   length (filter (\<lambda>r. entry_file r = ''a.png'')
     (log_data (finished example_env example_args example_world))) = 54"
proof -
  let ?L = "log_data (finished example_env example_args example_world)"
  have f: "filter (\<lambda>r. entry_file r = ''a.png'')
      (map (success_entry ''a.png'') (work_units augmentation_functions 2)) =
      map (success_entry ''a.png'') (work_units augmentation_functions 2)"
    by (simp add: filter_id_conv success_entry_def)
  have u: "length (work_units augmentation_functions 2) = 54"
    by (simp add: length_work_units length_augmentation_functions)
  have 1: "length ?L = 55" by (simp add: log_data_example u)
  have 2: "length (filter (\<lambda>r. entry_file r = ''a.png'') ?L) = 54"
    by (simp add: log_data_example f u)
  have 3: "1 \<le> max_mag example_args" by (simp add: example_args_def)
  show ?thesis using 1 2 3 by (simp add: png_files_example)
qed

section \<open>Runs without images or without WorkUnits\<close>

lemma work_units_empty: "mmax < 1 \<or> catalog = [] \<Longrightarrow> work_units catalog mmax = []"
  by (auto simp: work_units_def)

lemma process_file_no_units:
  assumes "work_units catalog (max_mag A) = []"
    and "image_open_resize E f (width A) (height A) = Inr img"
  shows "process_file E A catalog f s = s\<lparr>trace := trace s @ [Opened f]\<rparr>"
  using assms by (simp add: process_file_def try_block_def func_loop_unit_loop)

lemma file_loop_no_units:
  assumes "work_units catalog (max_mag A) = []"
  shows "log_data (file_loop E A catalog fs s) = log_data s @ open_failure_records E A fs"
proof (induction fs arbitrary: s)
  case Nil
  show ?case by (simp add: open_failure_records_def)
next
  case (Cons f fs)
  show ?case
  proof (cases "image_open_resize E f (width A) (height A)")
    case (Inl e)
    then show ?thesis
      using Cons.IH [of "process_file E A catalog f s"]
      by (simp add: process_file_open_failed open_failure_records_def)
  next
    case (Inr img)
    then show ?thesis
      using Cons.IH [of "process_file E A catalog f s"]
      by (simp add: process_file_no_units [OF assms] open_failure_records_def)
  qed
qed

lemma no_work_runs:
  "(png_files (w_listing W) = [] \<longrightarrow>
      log_data (finished E A W) = [] \<and>
      files (finished E A W) log_file_name = Some (LogDoc []) \<and>
      last (trace (finished E A W)) = Wrote log_file_name (LogDoc [])) \<and>
   ((max_mag A < 1 \<or> catalog = []) \<and> image_open_resize E f (width A) (height A) = Inr img \<longrightarrow>
      work_units catalog (max_mag A) = [] \<and>
      try_block E A catalog f s = (Done, s\<lparr>trace := trace s @ [Opened f]\<rparr>) \<and>
      process_file E A catalog f s = s\<lparr>trace := trace s @ [Opened f]\<rparr>) \<and>
   (max_mag A < 1 \<or> catalog = [] \<longrightarrow>
      log_data (processed E A catalog W) = open_failure_records E A (png_files (w_listing W)) \<and>
      files (save_log (processed E A catalog W)) log_file_name =
        Some (LogDoc (open_failure_records E A (png_files (w_listing W)))))"
proof -
  have 1: "log_data (finished E A W) = [] \<and>
      files (finished E A W) log_file_name = Some (LogDoc []) \<and>
      last (trace (finished E A W)) = Wrote log_file_name (LogDoc [])"
    if "png_files (w_listing W) = []"
    using that by (simp add: finished_def processed_def save_log_def log_data_startup)
  have 2: "work_units catalog (max_mag A) = [] \<and>
      try_block E A catalog f s = (Done, s\<lparr>trace := trace s @ [Opened f]\<rparr>) \<and>
      process_file E A catalog f s = s\<lparr>trace := trace s @ [Opened f]\<rparr>"
    if "(max_mag A < 1 \<or> catalog = []) \<and> image_open_resize E f (width A) (height A) = Inr img"
  proof -
    have u: "work_units catalog (max_mag A) = []" using that work_units_empty by blast
    then show ?thesis using that
      by (simp add: process_file_def try_block_def func_loop_unit_loop)
  qed
  have 3: "log_data (processed E A catalog W) = open_failure_records E A (png_files (w_listing W)) \<and>
      files (save_log (processed E A catalog W)) log_file_name =
        Some (LogDoc (open_failure_records E A (png_files (w_listing W))))"
    if "max_mag A < 1 \<or> catalog = []"
  proof -
    have u: "work_units catalog (max_mag A) = []" using that by (rule work_units_empty)
    have "log_data (processed E A catalog W) = open_failure_records E A (png_files (w_listing W))"
      unfolding processed_def by (simp add: file_loop_no_units [OF u] log_data_startup)
    then show ?thesis by (simp add: save_log_def)
  qed
  show ?thesis using 1 2 3 by blast
qed

section \<open>Operator instances\<close>

lemma constructions_append [simp]:
  "constructions (xs @ ys) = constructions xs @ constructions ys"
  by (simp add: constructions_def)

lemma constructions_simps [simp]:
  "constructions [] = []"
  "constructions (Constructed c # tr) = c # constructions tr"
  "constructions (Invoked c m # tr) = constructions tr"
  "constructions (Opened f # tr) = constructions tr"
  "constructions (Seeded i # tr) = constructions tr"
  "constructions (Wrote n x # tr) = constructions tr"
  by (simp_all add: constructions_def)

lemma work_unit_constructions:
  "constructions (trace (snd (work_unit E f img fn mag s))) = constructions (trace s) @ [fst fn]"
  by (cases rule: work_unit_cases
        [where E = E and fn = fn and s = s and img = img and mag = mag and f = f]) auto

lemma unit_loop_Done_constructions:
  "unit_loop E f img us s = (Done, s1) \<Longrightarrow>
     constructions (trace s1) = constructions (trace s) @ map (\<lambda>u. fst (fst u)) us"
proof (induction us arbitrary: s)
  case Nil
  then show ?case by simp
next
  case (Cons u us)
  obtain out s0 where w: "work_unit E f img (fst u) (snd u) s = (out, s0)"
    by (cases "work_unit E f img (fst u) (snd u) s")
  have c: "constructions (trace s0) = constructions (trace s) @ [fst (fst u)]"
    using work_unit_constructions [of E f img "fst u" "snd u" s] w by simp
  show ?case
  proof (cases out)
    case Done
    then have "unit_loop E f img us s0 = (Done, s1)" using Cons.prems w by simp
    then have "constructions (trace s1) = constructions (trace s0) @ map (\<lambda>u. fst (fst u)) us"
      by (rule Cons.IH)
    then show ?thesis using c by simp
  next
    case (Raised e)
    then show ?thesis using Cons.prems w by simp
  qed
qed

lemma process_file_total_constructions:
  assumes "operators_total E" "image_open_resize E f (width A) (height A) = Inr img"
  shows "constructions (trace (process_file E A catalog f s)) =
           constructions (trace s) @ map (\<lambda>u. fst (fst u)) (work_units catalog (max_mag A))"
proof -
  let ?us = "work_units catalog (max_mag A)"
  let ?s0 = "s\<lparr>trace := trace s @ [Opened f]\<rparr>"
  obtain out s1 where u: "unit_loop E f img ?us ?s0 = (out, s1)"
    by (cases "unit_loop E f img ?us ?s0")
  then have d: "out = Done" using unit_loop_total [OF assms(1), of f img ?us ?s0] by simp
  have "constructions (trace s1) = constructions (trace ?s0) @ map (\<lambda>u. fst (fst u)) ?us"
    using u d unit_loop_Done_constructions [of E f img ?us ?s0 s1] by simp
  moreover have "try_block E A catalog f s = (Done, s1)"
    using u d assms(2) by (simp add: try_block_def func_loop_unit_loop)
  ultimately show ?thesis by (simp add: process_file_def)
qed

lemma constructions_startup: "constructions (trace (started E A W)) = []"
  by (simp add: started_def Let_def)

lemma constructions_example:
  "constructions (trace (finished example_env example_args example_world)) =
     map (\<lambda>u. fst (fst u)) (work_units augmentation_functions 2)"
proof -
  have a: "image_open_resize example_env ''a.png'' (width example_args) (height example_args) =
      Inr 5"
    by (simp add: example_env_def)
  have b: "image_open_resize example_env ''bad.png'' (width example_args) (height example_args) =
      Inl ''cannot identify image file''"
    by (simp add: example_env_def)
  have m: "max_mag example_args = 2" by (simp add: example_args_def)
  show ?thesis
    unfolding finished_def processed_def png_files_example
    using process_file_total_constructions [OF operators_total_example a, of augmentation_functions]
    by (simp add: process_file_open_failed [OF b] constructions_startup m save_log_def)
qed

lemma upto_1_2: "[1..2] = [1, 2::int]"
  by (simp add: upto.simps)

lemma example_constructions:
  "length (constructions (trace (finished example_env example_args example_world))) = 54 \<and>
   length (filter (\<lambda>c. c = Curve)
     (constructions (trace (finished example_env example_args example_world)))) = 2 \<and>
   length augmentation_functions = 27"
proof -
  have 1: "length (map (\<lambda>u. fst (fst u)) (work_units augmentation_functions 2)) = 54"
    by (simp add: length_work_units length_augmentation_functions)
  have 2: "length (filter (\<lambda>c. c = Curve)
      (map (\<lambda>u. fst (fst u)) (work_units augmentation_functions 2))) = 2"
    by (simp add: work_units_def augmentation_functions_def upto_1_2)
  show ?thesis using 1 2 by (simp add: constructions_example length_augmentation_functions)
qed

lemma construction_per_artifact_file_loop:
  "construction_per_artifact s (file_loop E A catalog fs s)"
proof (rule file_loop_rel [where R = construction_per_artifact])
  show "\<And>s. construction_per_artifact s s" by (simp add: construction_per_artifact_def)
  show "\<And>a b c. construction_per_artifact a b \<Longrightarrow> construction_per_artifact b c \<Longrightarrow>
      construction_per_artifact a c"
    by (simp add: construction_per_artifact_def)
  show "\<And>f img fn mag s. construction_per_artifact s (snd (work_unit E f img fn mag s))"
  proof -
    fix f img fn mag s
    show "construction_per_artifact s (snd (work_unit E f img fn mag s))"
      by (cases rule: work_unit_cases
            [where E = E and fn = fn and s = s and img = img and mag = mag and f = f])
        (auto simp: construction_per_artifact_def success_entry_def)
  qed
  show "\<And>s f. construction_per_artifact s (s\<lparr>trace := trace s @ [Opened f]\<rparr>)"
    by (simp add: construction_per_artifact_def)
  show "\<And>s f e. construction_per_artifact s (s\<lparr>log_data := log_data s @ [Failure f e]\<rparr>)"
    by (simp add: construction_per_artifact_def)
qed

lemma constructions_per_work_unit:
  "filter is_op_event (trace (started E A W)) = [] \<and>
   (\<exists>chunks. filter is_op_event (trace (finished E A W)) = concat chunks \<and>
      list_all is_call_chunk chunks) \<and>
   length (filter is_success (log_data (finished E A W))) \<le>
     length (constructions (trace (finished E A W)))"
proof -
  let ?s0 = "started E A W" and ?s1 = "processed E A augmentation_functions W"
  have 0: "filter is_op_event (trace ?s0) = []" by (simp add: started_def Let_def)
  have "fresh_instances ?s0 ?s1" unfolding processed_def by (rule fresh_instances_file_loop)
  then obtain chunks where c: "filter is_op_event (trace ?s1) = concat chunks"
      "list_all is_call_chunk chunks"
    using 0 unfolding fresh_instances_def by auto
  have 1: "filter is_op_event (trace (finished E A W)) = concat chunks"
    using c(1) by (simp add: finished_def save_log_def)
  have "construction_per_artifact ?s0 ?s1"
    unfolding processed_def by (rule construction_per_artifact_file_loop)
  then have 2: "length (filter is_success (log_data (finished E A W))) \<le>
      length (constructions (trace (finished E A W)))"
    by (simp add: construction_per_artifact_def constructions_startup log_data_startup
        finished_def save_log_def)
  show ?thesis using 0 1 c(2) 2 by blast
qed

section \<open>An exception while an image is processed\<close>

lemma keeps_images_work_unit: "keeps_images s (snd (work_unit E f img fn mag s))"
  by (cases rule: work_unit_cases
        [where E = E and fn = fn and s = s and img = img and mag = mag and f = f])
    (auto simp: keeps_images_def)

lemma keeps_images_unit_loop: "keeps_images s (snd (unit_loop E f img us s))"
proof (rule unit_loop_rel [where R = keeps_images])
  show "\<And>s. keeps_images s s" by (simp add: keeps_images_def)
  show "\<And>a b c. keeps_images a b \<Longrightarrow> keeps_images b c \<Longrightarrow> keeps_images a c"
    by (simp add: keeps_images_def)
  show "\<And>fn mag s. keeps_images s (snd (work_unit E f img fn mag s))"
    by (rule keeps_images_work_unit)
qed

lemma unit_loop_Done_artifacts:
  "unit_loop E f img us s = (Done, s1) \<Longrightarrow>
     \<forall>v\<in>set us. \<exists>aug. files s1 (output_name f (snd (fst v)) (snd v)) = Some (ImageData aug)"
proof (induction us arbitrary: s)
  case Nil
  then show ?case by simp
next
  case (Cons u us)
  obtain out s0 where w: "work_unit E f img (fst u) (snd u) s = (out, s0)"
    by (cases "work_unit E f img (fst u) (snd u) s")
  show ?case
  proof (cases out)
    case Done
    then have l: "unit_loop E f img us s0 = (Done, s1)" using Cons.prems w by simp
    have "\<exists>aug. files s0 = (files s)(output_name f (snd (fst u)) (snd u) \<mapsto> ImageData aug)"
      using work_unit_Done(2) [of E f img "fst u" "snd u" s s0] w Done by simp
    then have "\<exists>aug. files s0 (output_name f (snd (fst u)) (snd u)) = Some (ImageData aug)"
      by auto
    moreover have "keeps_images s0 s1"
      using keeps_images_unit_loop [of s0 E f img us] l by simp
    ultimately have "\<exists>aug. files s1 (output_name f (snd (fst u)) (snd u)) = Some (ImageData aug)"
      unfolding keeps_images_def by blast
    then show ?thesis using Cons.IH [OF l] by simp
  next
    case (Raised e)
    then show ?thesis using Cons.prems w by simp
  qed
qed

lemma quiet_extension_keeps_files:
  assumes "quiet_extension s s'" "files s n \<noteq> None"
  shows "files s' n \<noteq> None"
proof -
  obtain evs where "files s' = fold apply_event evs (files s)"
    using assms(1) unfolding quiet_extension_def by blast
  then show ?thesis using fold_apply_event_keeps [of "files s" n evs] assms(2) by simp
qed

lemma quiet_extension_unit_loop: "quiet_extension s (snd (unit_loop E f img us s))"
  by (rule unit_loop_rel [where R = quiet_extension])
    (auto intro: quiet_extension_refl quiet_extension_trans quiet_extension_work_unit)

lemma quiet_extension_try_block: "quiet_extension s (snd (try_block E A catalog f s))"
proof (cases "image_open_resize E f (width A) (height A)")
  case (Inl e)
  then show ?thesis using quiet_extension_opened [of s f] by (simp add: try_block_def)
next
  case (Inr img)
  then show ?thesis
    using quiet_extension_trans [OF quiet_extension_opened [of s f]
        quiet_extension_unit_loop [of "s\<lparr>trace := trace s @ [Opened f]\<rparr>" E f img
          "work_units catalog (max_mag A)"]]
    by (simp add: try_block_def func_loop_unit_loop)
qed

lemma same_opened_unit_loop: "same_opened s (snd (unit_loop E f img us s))"
proof (rule unit_loop_rel [where R = same_opened])
  show "\<And>s. same_opened s s" by (simp add: same_opened_def)
  show "\<And>a b c. same_opened a b \<Longrightarrow> same_opened b c \<Longrightarrow> same_opened a c"
    by (simp add: same_opened_def)
  show "\<And>fn mag s. same_opened s (snd (work_unit E f img fn mag s))"
  proof -
    fix fn mag s
    show "same_opened s (snd (work_unit E f img fn mag s))"
      by (cases rule: work_unit_cases
            [where E = E and fn = fn and s = s and img = img and mag = mag and f = f])
        (auto simp: same_opened_def)
  qed
qed

lemma process_file_trace:
  "trace (process_file E A catalog f s) = trace (snd (try_block E A catalog f s))"
  by (simp add: process_file_def split: prod.splits outcome.splits)

lemma process_file_opened:
  "filter is_opened (trace (process_file E A catalog f s)) =
     filter is_opened (trace s) @ [Opened f]"
proof (cases "image_open_resize E f (width A) (height A)")
  case (Inl e)
  then show ?thesis by (simp add: process_file_trace try_block_def)
next
  case (Inr img)
  then show ?thesis
    using same_opened_unit_loop [of "s\<lparr>trace := trace s @ [Opened f]\<rparr>" E f img
        "work_units catalog (max_mag A)"]
    by (simp add: process_file_trace try_block_def func_loop_unit_loop same_opened_def)
qed

lemma file_loop_opened:
  "filter is_opened (trace (file_loop E A catalog fs s)) =
     filter is_opened (trace s) @ map Opened fs"
  by (induction fs arbitrary: s) (simp_all add: process_file_opened)

lemma run_opened:
  "filter is_opened (trace (processed E A catalog W)) = map Opened (png_files (w_listing W))"
  by (simp add: processed_def file_loop_opened started_def Let_def)

lemma raised_image_handled:
  assumes "try_block E A catalog f s = (Raised e, s1)"
  shows "process_file E A catalog f s = s1\<lparr>log_data := log_data s1 @ [Failure f e]\<rparr> \<and>
    (image_open_resize E f (width A) (height A) = Inl e \<and>
       s1 = s\<lparr>trace := trace s @ [Opened f]\<rparr>
     \<or> (\<exists>img pre u post s0.
          image_open_resize E f (width A) (height A) = Inr img \<and>
          work_units catalog (max_mag A) = pre @ u # post \<and>
          unit_loop E f img pre (s\<lparr>trace := trace s @ [Opened f]\<rparr>) = (Done, s0) \<and>
          work_unit E f img (fst u) (snd u) s0 = (Raised e, s1) \<and>
          log_data s1 = log_data s @ map (success_entry f) pre \<and>
          (\<forall>v\<in>set pre.
             \<exists>aug. files s1 (output_name f (snd (fst v)) (snd v)) = Some (ImageData aug)))) \<and>
    (\<forall>n. files s n \<noteq> None \<longrightarrow> files s1 n \<noteq> None) \<and>
    file_loop E A catalog (f # rest) s =
      file_loop E A catalog rest (s1\<lparr>log_data := log_data s1 @ [Failure f e]\<rparr>) \<and>
    filter is_opened (trace (processed E A catalog W)) = map Opened (png_files (w_listing W))"
proof -
  let ?s0 = "s\<lparr>trace := trace s @ [Opened f]\<rparr>"
  let ?us = "work_units catalog (max_mag A)"
  have p: "process_file E A catalog f s = s1\<lparr>log_data := log_data s1 @ [Failure f e]\<rparr>"
    using assms by (simp add: process_file_def)
  have c: "image_open_resize E f (width A) (height A) = Inl e \<and> s1 = ?s0
     \<or> (\<exists>img pre u post s0.
          image_open_resize E f (width A) (height A) = Inr img \<and>
          ?us = pre @ u # post \<and>
          unit_loop E f img pre ?s0 = (Done, s0) \<and>
          work_unit E f img (fst u) (snd u) s0 = (Raised e, s1) \<and>
          log_data s1 = log_data s @ map (success_entry f) pre \<and>
          (\<forall>v\<in>set pre.
             \<exists>aug. files s1 (output_name f (snd (fst v)) (snd v)) = Some (ImageData aug)))"
  proof (cases "image_open_resize E f (width A) (height A)")
    case (Inl e')
    then show ?thesis using assms by (simp add: try_block_def)
  next
    case (Inr img)
    then have "unit_loop E f img ?us ?s0 = (Raised e, s1)"
      using assms by (simp add: try_block_def func_loop_unit_loop)
    then obtain pre u post s0 where
      d: "?us = pre @ u # post" "unit_loop E f img pre ?s0 = (Done, s0)"
         "work_unit E f img (fst u) (snd u) s0 = (Raised e, s1)"
      using unit_loop_Raised [of E f img ?us ?s0 e s1] by blast
    have l0: "log_data s0 = log_data ?s0 @ map (success_entry f) pre"
      using d(2) by (rule unit_loop_Done)
    have l1: "log_data s1 = log_data s @ map (success_entry f) pre"
      using work_unit_Raised(1) [OF d(3)] l0 by simp
    have "\<forall>v\<in>set pre.
        \<exists>aug. files s0 (output_name f (snd (fst v)) (snd v)) = Some (ImageData aug)"
      using d(2) by (rule unit_loop_Done_artifacts)
    then have a: "\<forall>v\<in>set pre.
        \<exists>aug. files s1 (output_name f (snd (fst v)) (snd v)) = Some (ImageData aug)"
      using work_unit_Raised(2) [OF d(3)] by simp
    show ?thesis using Inr d l1 a by blast
  qed
  have "quiet_extension s (snd (try_block E A catalog f s))" by (rule quiet_extension_try_block)
  then have q: "quiet_extension s s1" using assms by simp
  have k: "\<forall>n. files s n \<noteq> None \<longrightarrow> files s1 n \<noteq> None"
    using quiet_extension_keeps_files [OF q] by blast
  have n: "file_loop E A catalog (f # rest) s =
      file_loop E A catalog rest (s1\<lparr>log_data := log_data s1 @ [Failure f e]\<rparr>)"
    using p by simp
  show ?thesis using p c k n run_opened [of E A catalog W] by blast
qed

lemma output_name_a_curve_1: "output_name ''a.png'' ''curve'' 1 = ''a_curve_1.png''"
  by (simp add: output_name_def splitext_def str_int_def digits.simps Let_def)

lemma try_block_failing_example:
  "try_block failing_env example_args augmentation_functions ''a.png'' s =
     (Raised ''operator failed'',
      s\<lparr>rng := rng s + 2,
         files := (files s)(''a_curve_1.png'' \<mapsto> ImageData 5),
         log_data := log_data s @ [Success ''a.png'' ''curve'' 1 ''a_curve_1.png''],
         trace := trace s @ [Opened ''a.png'', Constructed Curve, Invoked Curve 1,
           Wrote ''a_curve_1.png'' (ImageData 5), Constructed Curve,
           Invoked Curve 2]\<rparr>)"
  by (simp add: try_block_def failing_env_def example_args_def augmentation_functions_def
      upto_1_2 work_unit_def apply_augmentation_def output_name_a_curve_1 Let_def
      eval_nat_numeral)

section \<open>The order of the WorkUnits\<close>

lemma work_unit_steps:
  "work_unit E f img fn mag s = (out, s1) \<Longrightarrow>
     filter is_step (trace s1) = filter is_step (trace s) @ [invoked_event (fn, mag)] \<or>
     out \<noteq> Done \<and> filter is_step (trace s1) = filter is_step (trace s)"
  by (cases rule: work_unit_cases
        [where E = E and fn = fn and s = s and img = img and mag = mag and f = f])
    (auto simp: invoked_event_def)

lemma unit_loop_steps:
  "\<exists>j. filter is_step (trace (snd (unit_loop E f img us s))) =
         filter is_step (trace s) @ map invoked_event (take j us)"
proof (induction us arbitrary: s)
  case Nil
  show ?case by simp
next
  case (Cons u us)
  obtain out s0 where w: "work_unit E f img (fst u) (snd u) s = (out, s0)"
    by (cases "work_unit E f img (fst u) (snd u) s")
  note st = work_unit_steps [OF w]
  show ?case
  proof (cases out)
    case Done
    then have a: "filter is_step (trace s0) = filter is_step (trace s) @ [invoked_event u]"
      using st by simp
    obtain j where j: "filter is_step (trace (snd (unit_loop E f img us s0))) =
        filter is_step (trace s0) @ map invoked_event (take j us)"
      using Cons.IH [of s0] by blast
    have "filter is_step (trace (snd (unit_loop E f img (u # us) s))) =
        filter is_step (trace s) @ map invoked_event (take (Suc j) (u # us))"
      using w Done a j by simp
    then show ?thesis by blast
  next
    case (Raised e)
    then have r: "snd (unit_loop E f img (u # us) s) = s0" using w by simp
    from st show ?thesis
    proof
      assume "filter is_step (trace s0) = filter is_step (trace s) @ [invoked_event (fst u, snd u)]"
      then have "filter is_step (trace (snd (unit_loop E f img (u # us) s))) =
          filter is_step (trace s) @ map invoked_event (take (Suc 0) (u # us))"
        using r by simp
      then show ?thesis by blast
    next
      assume "out \<noteq> Done \<and> filter is_step (trace s0) = filter is_step (trace s)"
      then have "filter is_step (trace (snd (unit_loop E f img (u # us) s))) =
          filter is_step (trace s) @ map invoked_event (take 0 (u # us))"
        using r by simp
      then show ?thesis by blast
    qed
  qed
qed

lemma process_file_steps:
  "\<exists>j. filter is_step (trace (process_file E A catalog f s)) =
         filter is_step (trace s) @
           Opened f # map invoked_event (take j (work_units catalog (max_mag A)))"
proof (cases "image_open_resize E f (width A) (height A)")
  case (Inl e)
  then have "filter is_step (trace (process_file E A catalog f s)) =
      filter is_step (trace s) @
        Opened f # map invoked_event (take 0 (work_units catalog (max_mag A)))"
    by (simp add: process_file_trace try_block_def)
  then show ?thesis by blast
next
  case (Inr img)
  let ?s0 = "s\<lparr>trace := trace s @ [Opened f]\<rparr>"
  obtain j where "filter is_step (trace (snd (unit_loop E f img
        (work_units catalog (max_mag A)) ?s0))) =
      filter is_step (trace ?s0) @ map invoked_event (take j (work_units catalog (max_mag A)))"
    using unit_loop_steps [of E f img "work_units catalog (max_mag A)" ?s0] by blast
  then have "filter is_step (trace (process_file E A catalog f s)) =
      filter is_step (trace s) @
        Opened f # map invoked_event (take j (work_units catalog (max_mag A)))"
    using Inr by (simp add: process_file_trace try_block_def func_loop_unit_loop)
  then show ?thesis by blast
qed

lemma file_loop_steps:
  "\<exists>js. length js = length fs \<and>
     filter is_step (trace (file_loop E A catalog fs s)) =
       filter is_step (trace s) @
         concat (map2 (\<lambda>f j. Opened f #
           map invoked_event (take j (work_units catalog (max_mag A)))) fs js)"
proof (induction fs arbitrary: s)
  case Nil
  show ?case by simp
next
  case (Cons f fs)
  let ?us = "work_units catalog (max_mag A)"
  obtain j where j: "filter is_step (trace (process_file E A catalog f s)) =
      filter is_step (trace s) @ Opened f # map invoked_event (take j ?us)"
    using process_file_steps [of E A catalog f s] by blast
  obtain js where js: "length js = length fs"
      "filter is_step (trace (file_loop E A catalog fs (process_file E A catalog f s))) =
         filter is_step (trace (process_file E A catalog f s)) @
           concat (map2 (\<lambda>f j. Opened f # map invoked_event (take j ?us)) fs js)"
    using Cons.IH [of "process_file E A catalog f s"] by blast
  have "length (j # js) = length (f # fs)" using js(1) by simp
  moreover have "filter is_step (trace (file_loop E A catalog (f # fs) s)) =
      filter is_step (trace s) @
        concat (map2 (\<lambda>f j. Opened f # map invoked_event (take j ?us)) (f # fs) (j # js))"
    using j js(2) by simp
  ultimately show ?case by blast
qed

lemma image_block_successes:
  assumes "image_block us f b"
  shows "\<exists>k. filter is_success b = map (success_entry f) (take k us)"
proof -
  obtain k fails where k: "b = map (success_entry f) (take k us) @ fails"
    "fails = [] \<or> (\<exists>e. fails = [Failure f e])"
    using assms unfolding image_block_def by blast
  have "filter is_success (map (success_entry f) (take k us)) =
      map (success_entry f) (take k us)"
    by (simp add: filter_id_conv success_entry_def)
  moreover have "filter is_success fails = []" using k(2) by auto
  ultimately have "filter is_success b = map (success_entry f) (take k us)"
    using k(1) by simp
  then show ?thesis by blast
qed

lemma blocks_successes:
  assumes "list_all2 (image_block us) fs bs"
  shows "\<exists>ks. length ks = length fs \<and>
     filter is_success (concat bs) =
       concat (map2 (\<lambda>f k. map (success_entry f) (take k us)) fs ks)"
  using assms
proof (induction rule: list_all2_induct)
  case Nil
  show ?case by simp
next
  case (Cons f fs b bs)
  obtain k where k: "filter is_success b = map (success_entry f) (take k us)"
    using image_block_successes [OF Cons.hyps(1)] by blast
  obtain ks where ks: "length ks = length fs"
      "filter is_success (concat bs) =
         concat (map2 (\<lambda>f k. map (success_entry f) (take k us)) fs ks)"
    using Cons.IH by blast
  have "length (k # ks) = length (f # fs)" using ks(1) by simp
  moreover have "filter is_success (concat (b # bs)) =
      concat (map2 (\<lambda>f k. map (success_entry f) (take k us)) (f # fs) (k # ks))"
    using k ks(2) by simp
  ultimately show ?case by blast
qed

section \<open>The shape of the log\<close>

lemma nth_append_right_mem:
  assumes "\<not> j < length L" "j < length (L @ B)"
  shows "(L @ B) ! j \<in> set B"
proof -
  have "(L @ B) ! j = B ! (j - length L)" using assms(1) by (simp add: nth_append)
  moreover have "j - length L < length B" using assms by simp
  ultimately show ?thesis by simp
qed

lemma image_block_files:
  assumes "image_block us f b"
  shows "\<forall>r\<in>set b. entry_file r = f"
proof -
  obtain k fails where k: "b = map (success_entry f) (take k us) @ fails"
    "fails = [] \<or> (\<exists>e. fails = [Failure f e])"
    using assms unfolding image_block_def by blast
  then show ?thesis by (auto simp: success_entry_def)
qed

lemma image_block_failure_last:
  assumes "image_block us f b" "i < length b" "is_failure (b ! i)"
  shows "Suc i = length b"
proof -
  obtain k fails where k: "b = map (success_entry f) (take k us) @ fails"
    "fails = [] \<or> (\<exists>e. fails = [Failure f e])"
    using assms(1) unfolding image_block_def by blast
  let ?ss = "map (success_entry f) (take k us)"
  have "\<not> i < length ?ss"
  proof
    assume "i < length ?ss"
    then have "b ! i = success_entry f (take k us ! i)" using k(1) by (simp add: nth_append)
    then show False using assms(3) by (simp add: success_entry_def)
  qed
  then show ?thesis using assms(2) k by auto
qed

lemma blocks_by_file_append:
  assumes "blocks_by_file L" "f \<notin> entry_file ` set L" "\<forall>r\<in>set B. entry_file r = f"
  shows "blocks_by_file (L @ B)"
  unfolding blocks_by_file_def
proof (intro allI impI)
  fix i j k
  assume a: "i < j \<and> j < k \<and> k < length (L @ B) \<and>
    entry_file ((L @ B) ! i) = entry_file ((L @ B) ! k)"
  then have ij: "i < j" and jk: "j < k" and kl: "k < length (L @ B)"
    and ik: "entry_file ((L @ B) ! i) = entry_file ((L @ B) ! k)"
    by simp_all
  show "entry_file ((L @ B) ! j) = entry_file ((L @ B) ! i)"
  proof (cases "k < length L")
    case True
    then have "i < j \<and> j < k \<and> k < length L \<and> entry_file (L ! i) = entry_file (L ! k)"
      using ij jk ik by (simp add: nth_append)
    then have "entry_file (L ! j) = entry_file (L ! i)"
      using assms(1) unfolding blocks_by_file_def by blast
    then show ?thesis using True ij jk by (simp add: nth_append)
  next
    case False
    then have "(L @ B) ! k \<in> set B" using kl by (rule nth_append_right_mem)
    then have fk: "entry_file ((L @ B) ! k) = f" using assms(3) by blast
    have ni: "\<not> i < length L"
    proof
      assume "i < length L"
      then have "(L @ B) ! i \<in> set L" by (simp add: nth_append)
      then have "entry_file ((L @ B) ! i) \<in> entry_file ` set L" by (rule imageI)
      then show False using ik fk assms(2) by simp
    qed
    then have "\<not> j < length L" using ij by simp
    moreover have "j < length (L @ B)" using jk kl by simp
    ultimately have "(L @ B) ! j \<in> set B" by (rule nth_append_right_mem)
    then have "entry_file ((L @ B) ! j) = f" using assms(3) by blast
    then show ?thesis using ik fk by simp
  qed
qed

lemma failure_ends_block_append:
  assumes "failure_ends_block L" "f \<notin> entry_file ` set L" "image_block us f B"
  shows "failure_ends_block (L @ B)"
  unfolding failure_ends_block_def
proof (intro allI impI)
  fix i j
  assume a: "i < j \<and> j < length (L @ B) \<and> is_failure ((L @ B) ! i)"
  then have ij: "i < j" and jl: "j < length (L @ B)" and fi: "is_failure ((L @ B) ! i)"
    by simp_all
  show "entry_file ((L @ B) ! j) \<noteq> entry_file ((L @ B) ! i)"
  proof (cases "i < length L")
    case True
    then have "(L @ B) ! i \<in> set L" by (simp add: nth_append)
    then have il: "entry_file ((L @ B) ! i) \<in> entry_file ` set L" by (rule imageI)
    show ?thesis
    proof (cases "j < length L")
      case jl: True
      then have "i < j \<and> j < length L \<and> is_failure (L ! i)"
        using ij fi True by (simp add: nth_append)
      then have "entry_file (L ! j) \<noteq> entry_file (L ! i)"
        using assms(1) unfolding failure_ends_block_def by blast
      then show ?thesis using True jl by (simp add: nth_append)
    next
      case False
      then have "(L @ B) ! j \<in> set B" using jl by (rule nth_append_right_mem)
      then have "entry_file ((L @ B) ! j) = f" using image_block_files [OF assms(3)] by blast
      then show ?thesis using il assms(2) by auto
    qed
  next
    case False
    then have 1: "is_failure (B ! (i - length L))" using fi by (simp add: nth_append)
    have 2: "i - length L < length B" using False ij jl by simp
    have "Suc (i - length L) = length B"
      using image_block_failure_last [OF assms(3) 2 1] .
    then have "length L + length B \<le> j" using False ij by linarith
    then show ?thesis using jl by simp
  qed
qed

lemma file_loop_log_shape:
  assumes "distinct fs" "set fs \<inter> entry_file ` set (log_data s) = {}"
    "blocks_by_file (log_data s)" "failure_ends_block (log_data s)"
  shows "blocks_by_file (log_data (file_loop E A catalog fs s)) \<and>
    failure_ends_block (log_data (file_loop E A catalog fs s))"
  using assms
proof (induction fs arbitrary: s)
  case Nil
  then show ?case by simp
next
  case (Cons f fs)
  let ?s1 = "process_file E A catalog f s"
  obtain b where b: "log_data ?s1 = log_data s @ b"
      "image_block (work_units catalog (max_mag A)) f b"
    using process_file_block [of E A catalog f s] by blast
  have nf: "f \<notin> entry_file ` set (log_data s)" using Cons.prems(2) by auto
  have fb: "\<forall>r\<in>set b. entry_file r = f" using b(2) by (rule image_block_files)
  have 1: "distinct fs" using Cons.prems(1) by simp
  have "f \<notin> set fs" using Cons.prems(1) by simp
  then have 2: "set fs \<inter> entry_file ` set (log_data ?s1) = {}"
    using Cons.prems(2) fb b(1) by auto
  have 3: "blocks_by_file (log_data ?s1)"
    using blocks_by_file_append [OF Cons.prems(3) nf fb] b(1) by simp
  have 4: "failure_ends_block (log_data ?s1)"
    using failure_ends_block_append [OF Cons.prems(4) nf b(2)] b(1) by simp
  show ?case using Cons.IH [OF 1 2 3 4] by simp
qed

lemma processed_log_blocks:
  assumes "distinct (w_listing W)"
  shows "(\<forall>i j k. i < j \<and> j < k \<and> k < length (log_data (finished E A W)) \<and>
            entry_file (log_data (finished E A W) ! i) = entry_file (log_data (finished E A W) ! k) \<longrightarrow>
            entry_file (log_data (finished E A W) ! j) = entry_file (log_data (finished E A W) ! i)) \<and>
         (\<forall>i j. i < j \<and> j < length (log_data (finished E A W)) \<and>
            is_failure (log_data (finished E A W) ! i) \<longrightarrow>
            entry_file (log_data (finished E A W) ! j) \<noteq> entry_file (log_data (finished E A W) ! i))"
proof -
  have d: "distinct (png_files (w_listing W))" using assms by (simp add: png_files_def)
  have "blocks_by_file (log_data (processed E A augmentation_functions W)) \<and>
      failure_ends_block (log_data (processed E A augmentation_functions W))"
    unfolding processed_def
    by (rule file_loop_log_shape [OF d])
      (simp_all add: log_data_startup blocks_by_file_def failure_ends_block_def)
  then have "blocks_by_file (log_data (finished E A W)) \<and>
      failure_ends_block (log_data (finished E A W))"
    by (simp only: log_data_main)
  then show ?thesis
    unfolding blocks_by_file_def failure_ends_block_def .
qed

section \<open>A run depends on the seed, the images and the operators only\<close>

lemma extend_blank: "extend s (blank (rng s)) = s"
  by (simp add: extend_def blank_def)

lemma extend_assoc: "extend (extend s a) c = extend s (extend a c)"
  by (simp add: extend_def)

lemma extend_simps [simp]:
  "rng (extend s b) = rng b"
  "log_data (extend s b) = log_data s @ log_data b"
  "trace (extend s b) = trace s @ trace b"
  "files (extend s b) = fold apply_event (trace b) (files s)"
  by (simp_all add: extend_def)

lemma blank_simps [simp]:
  "rng (blank r) = r"
  "files (blank r) = Map.empty"
  "log_data (blank r) = []"
  "trace (blank r) = []"
  by (simp_all add: blank_def)

lemma work_unit_frame:
  "work_unit E f img fn mag s =
     (fst (work_unit E f img fn mag (blank (rng s))),
      extend s (snd (work_unit E f img fn mag (blank (rng s)))))"
proof (cases rule: work_unit_cases
    [where E = E and fn = fn and s = s and img = img and mag = mag and f = f])
  case (construct_raises e r1)
  have "work_unit E f img fn mag (blank (rng s)) =
      (Raised e, (blank (rng s))\<lparr>rng := r1, trace := [Constructed (fst fn)]\<rparr>)"
    using construct_raises(1) by (simp add: work_unit_def apply_augmentation_def)
  then show ?thesis using construct_raises(2) by (simp add: extend_def)
next
  case (call_raises inst r1 e r2)
  have "work_unit E f img fn mag (blank (rng s)) =
      (Raised e,
       (blank (rng s))\<lparr>rng := r2, trace := [Constructed (fst fn), Invoked (fst fn) mag]\<rparr>)"
    using call_raises(1,2) by (simp add: work_unit_def apply_augmentation_def)
  then show ?thesis using call_raises(3) by (simp add: extend_def)
next
  case (save_raises inst r1 aug r2 e)
  have "work_unit E f img fn mag (blank (rng s)) =
      (Raised e,
       (blank (rng s))\<lparr>rng := r2, trace := [Constructed (fst fn), Invoked (fst fn) mag]\<rparr>)"
    using save_raises(1,2,3) by (simp add: work_unit_def apply_augmentation_def)
  then show ?thesis using save_raises(4) by (simp add: extend_def)
next
  case (saved inst r1 aug r2)
  have "work_unit E f img fn mag (blank (rng s)) =
      (Done,
       (blank (rng s))\<lparr>rng := r2,
          files := [output_name f (snd fn) mag \<mapsto> ImageData aug],
          log_data := [success_entry f (fn, mag)],
          trace := [Constructed (fst fn), Invoked (fst fn) mag,
            Wrote (output_name f (snd fn) mag) (ImageData aug)]\<rparr>)"
    using saved(1,2,3)
    by (simp add: work_unit_def apply_augmentation_def success_entry_def Let_def)
  then show ?thesis using saved(4) by (simp add: extend_def)
qed

lemma unit_loop_frame:
  "unit_loop E f img us s =
     (fst (unit_loop E f img us (blank (rng s))),
      extend s (snd (unit_loop E f img us (blank (rng s)))))"
proof (induction us arbitrary: s)
  case Nil
  show ?case by (simp add: extend_blank)
next
  case (Cons u us)
  let ?b = "blank (rng s) :: ('a, 'b) state"
  obtain out a where w: "work_unit E f img (fst u) (snd u) ?b = (out, a)"
    by (cases "work_unit E f img (fst u) (snd u) ?b")
  have ws: "work_unit E f img (fst u) (snd u) s = (out, extend s a)"
    using work_unit_frame [of E f img "fst u" "snd u" s] w by simp
  show ?case
  proof (cases out)
    case Done
    have 1: "unit_loop E f img (u # us) s = unit_loop E f img us (extend s a)"
      using ws Done by simp
    have 2: "unit_loop E f img (u # us) ?b = unit_loop E f img us a"
      using w Done by simp
    let ?c = "unit_loop E f img us (blank (rng a))"
    have 3: "unit_loop E f img us (extend s a) = (fst ?c, extend (extend s a) (snd ?c))"
      using Cons.IH [of "extend s a"] by simp
    have 4: "unit_loop E f img us a = (fst ?c, extend a (snd ?c))"
      using Cons.IH [of a] by simp
    show ?thesis unfolding 1 2 3 4 by (simp add: extend_assoc)
  next
    case (Raised e)
    then show ?thesis using ws w by simp
  qed
qed

lemma process_file_frame:
  "process_file E A catalog f s = extend s (process_file E A catalog f (blank (rng s)))"
proof (cases "image_open_resize E f (width A) (height A)")
  case (Inl e)
  then show ?thesis
    by (simp add: process_file_def try_block_def extend_def blank_def)
next
  case (Inr img)
  let ?us = "work_units catalog (max_mag A)"
  let ?b = "blank (rng s) :: ('a, 'b) state"
  let ?so = "s\<lparr>trace := trace s @ [Opened f]\<rparr>"
  let ?bo = "?b\<lparr>trace := trace ?b @ [Opened f]\<rparr>"
  let ?c = "unit_loop E f img ?us ?b"
  have rs: "rng ?so = rng s" by simp
  have rb: "rng ?bo = rng s" by simp
  have bb: "blank (rng ?bo) = ?b" by simp
  have 1: "unit_loop E f img ?us ?so = (fst ?c, extend ?so (snd ?c))"
    using unit_loop_frame [of E f img ?us ?so] by simp
  have 2: "unit_loop E f img ?us ?bo = (fst ?c, extend ?bo (snd ?c))"
    using unit_loop_frame [of E f img ?us ?bo] bb by simp
  have 3: "extend s (extend ?bo (snd ?c)) = extend ?so (snd ?c)"
    by (simp add: extend_def blank_def)
  have 4: "extend s ((extend ?bo (snd ?c))\<lparr>log_data := log_data (extend ?bo (snd ?c)) @ [x]\<rparr>) =
      (extend ?so (snd ?c))\<lparr>log_data := log_data (extend ?so (snd ?c)) @ [x]\<rparr>" for x
    by (simp add: extend_def blank_def)
  show ?thesis
  proof (cases "fst ?c")
    case Done
    then show ?thesis using Inr 1 2 3
      by (simp add: process_file_def try_block_def func_loop_unit_loop)
  next
    case (Raised e)
    then show ?thesis using Inr 1 2 4 [of "Failure f e"]
      by (simp add: process_file_def try_block_def func_loop_unit_loop)
  qed
qed

lemma file_loop_frame:
  "file_loop E A catalog fs s = extend s (file_loop E A catalog fs (blank (rng s)))"
proof (induction fs arbitrary: s)
  case Nil
  show ?case by (simp add: extend_blank)
next
  case (Cons f fs)
  let ?b = "blank (rng s) :: ('a, 'b) state"
  let ?a = "process_file E A catalog f ?b"
  let ?c = "file_loop E A catalog fs (blank (rng ?a))"
  have p: "process_file E A catalog f s = extend s ?a" by (rule process_file_frame)
  have 1: "file_loop E A catalog fs (extend s ?a) = extend (extend s ?a) ?c"
    using Cons.IH [of "extend s ?a"] by simp
  have 2: "file_loop E A catalog fs ?a = extend ?a ?c"
    using Cons.IH [of ?a] by simp
  show ?case using p 1 2 by (simp add: extend_assoc)
qed

lemma fold_apply_event_cong:
  "fs1 n = fs2 n \<Longrightarrow> fold apply_event evs fs1 n = fold apply_event evs fs2 n"
proof (induction evs arbitrary: fs1 fs2)
  case Nil
  then show ?case by simp
next
  case (Cons e evs)
  have "apply_event e fs1 n = apply_event e fs2 n" using Cons.prems by (cases e) simp_all
  then have "fold apply_event evs (apply_event e fs1) n = fold apply_event evs (apply_event e fs2) n"
    by (rule Cons.IH)
  then show ?case by simp
qed

lemma fold_apply_event_same:
  "Wrote n c \<in> set evs \<Longrightarrow> fold apply_event evs fs1 n = fold apply_event evs fs2 n"
proof (induction evs arbitrary: fs1 fs2)
  case Nil
  then show ?case by simp
next
  case (Cons e evs)
  show ?case
  proof (cases "Wrote n c \<in> set evs")
    case True
    then have "fold apply_event evs (apply_event e fs1) n = fold apply_event evs (apply_event e fs2) n"
      by (rule Cons.IH)
    then show ?thesis by simp
  next
    case False
    then have "e = Wrote n c" using Cons.prems by simp
    then have "apply_event e fs1 n = apply_event e fs2 n" by simp
    then have "fold apply_event evs (apply_event e fs1) n = fold apply_event evs (apply_event e fs2) n"
      by (rule fold_apply_event_cong)
    then show ?thesis by simp
  qed
qed

lemma rng_startup: "rng (started E A W) = np_random_seed E (seed A)"
  by (simp add: started_def Let_def)

lemma main_frame:
  "finished E A W =
     save_log (extend (started E A W)
       (file_loop E A augmentation_functions (png_files (w_listing W))
         (blank (np_random_seed E (seed A)))))"
  using file_loop_frame [of E A augmentation_functions "png_files (w_listing W)" "started E A W"]
  by (simp add: finished_def processed_def rng_startup)

lemma startup_writes:
  "Wrote n c \<in> set (trace (started E A W)) \<Longrightarrow> n = log_file_name"
  by (auto simp: started_def Let_def split: if_splits)

lemma processed_deterministic:
  assumes "w_listing W1 = w_listing W2"
  shows "log_data (finished E A W1) = log_data (finished E A W2) \<and>
    rng (finished E A W1) = rng (finished E A W2) \<and>
    (\<exists>evs. trace (finished E A W1) = trace (started E A W1) @ evs \<and>
       trace (finished E A W2) = trace (started E A W2) @ evs \<and>
       files (finished E A W1) = fold apply_event evs (files (started E A W1)) \<and>
       files (finished E A W2) = fold apply_event evs (files (started E A W2))) \<and>
    (\<forall>n c. Wrote n c \<in> set (trace (finished E A W1)) \<longrightarrow>
       files (finished E A W1) n = files (finished E A W2) n) \<and>
    filter is_seeded (trace (finished E A W1)) = [Seeded (seed A)] \<and>
    hd (trace (finished E A W1)) = Seeded (seed A) \<and>
    rng (started E A W1) = np_random_seed E (seed A)"
proof -
  let ?r = "np_random_seed E (seed A)"
  let ?b = "file_loop E A augmentation_functions (png_files (w_listing W1)) (blank ?r)"
  let ?evs = "trace ?b @ [Wrote log_file_name (LogDoc (log_data ?b))]"
  have m1: "finished E A W1 = save_log (extend (started E A W1) ?b)" by (rule main_frame)
  have m2: "finished E A W2 = save_log (extend (started E A W2) ?b)"
    using main_frame [of E A W2] assms by simp
  have l1: "log_data (finished E A W1) = log_data ?b"
    unfolding m1 by (simp add: save_log_def log_data_startup)
  have l2: "log_data (finished E A W2) = log_data ?b"
    unfolding m2 by (simp add: save_log_def log_data_startup)
  have r: "rng (finished E A W1) = rng (finished E A W2)"
    unfolding m1 m2 by (simp add: save_log_def)
  have t1: "trace (finished E A W1) = trace (started E A W1) @ ?evs"
    unfolding m1 by (simp add: save_log_def log_data_startup)
  have t2: "trace (finished E A W2) = trace (started E A W2) @ ?evs"
    unfolding m2 by (simp add: save_log_def log_data_startup)
  have f1: "files (finished E A W1) = fold apply_event ?evs (files (started E A W1))"
    unfolding m1 by (simp add: save_log_def log_data_startup)
  have f2: "files (finished E A W2) = fold apply_event ?evs (files (started E A W2))"
    unfolding m2 by (simp add: save_log_def log_data_startup)
  have last_write: "Wrote log_file_name (LogDoc (log_data ?b)) \<in> set ?evs" by simp
  have same: "files (finished E A W1) n = files (finished E A W2) n"
    if w: "Wrote n c \<in> set (trace (finished E A W1))" for n c
  proof (cases "Wrote n c \<in> set ?evs")
    case True
    then show ?thesis unfolding f1 f2 by (rule fold_apply_event_same)
  next
    case False
    have "set (trace (finished E A W1)) = set (trace (started E A W1)) \<union> set ?evs"
      by (simp only: t1 set_append)
    then have "Wrote n c \<in> set (trace (started E A W1))" using w False by blast
    then have "n = log_file_name" by (rule startup_writes)
    then show ?thesis unfolding f1 f2 using fold_apply_event_same [OF last_write] by simp
  qed
  have "quiet_extension (blank ?r) ?b" by (rule quiet_extension_file_loop)
  then have ns: "filter is_seeded (trace ?b) = []"
    unfolding quiet_extension_def by auto
  have s1: "filter is_seeded (trace (finished E A W1)) = [Seeded (seed A)]"
    unfolding t1 using ns by (simp add: started_def Let_def)
  have h1: "hd (trace (finished E A W1)) = Seeded (seed A)"
    unfolding t1 by (simp add: started_def Let_def)
  have ex: "\<exists>evs. trace (finished E A W1) = trace (started E A W1) @ evs \<and>
       trace (finished E A W2) = trace (started E A W2) @ evs \<and>
       files (finished E A W1) = fold apply_event evs (files (started E A W1)) \<and>
       files (finished E A W2) = fold apply_event evs (files (started E A W2))"
    using t1 t2 f1 f2 by blast
  have all: "\<forall>n c. Wrote n c \<in> set (trace (finished E A W1)) \<longrightarrow>
       files (finished E A W1) n = files (finished E A W2) n"
    using same by blast
  show ?thesis using l1 l2 r ex all s1 h1 rng_startup [of E A W1] by simp
qed

section \<open>Output file names\<close>

lemma success_entry_output:
  "entry_output_file (success_entry f u) =
     fst (splitext f) @ ''_'' @ snd (fst u) @ ''_'' @ str_int (snd u) @ ''.png''"
  by (simp add: success_entry_def output_name_def Let_def)

lemma png_files_hidden: "png_files (w_listing hidden_world) = [''.png'', ''.png.png'']"
  by (simp add: png_files_def hidden_world_def endswith_def)

lemma log_data_hidden:
  "log_data (finished example_env example_args hidden_world) =
     map (success_entry ''.png'') (work_units augmentation_functions 2) @
     map (success_entry ''.png.png'') (work_units augmentation_functions 2)"
proof -
  have a: "image_open_resize example_env ''.png'' (width example_args) (height example_args) =
      Inr 4"
    by (simp add: example_env_def)
  have b: "image_open_resize example_env ''.png.png'' (width example_args) (height example_args) =
      Inr 8"
    by (simp add: example_env_def)
  have m: "max_mag example_args = 2" by (simp add: example_args_def)
  show ?thesis
    unfolding log_data_main processed_def png_files_hidden
    using process_file_total [OF operators_total_example a, of augmentation_functions]
      process_file_total [OF operators_total_example b, of augmentation_functions]
    by (simp add: log_data_startup m)
qed

lemma curve_1_work_unit: "((Curve, ''curve''), 1) \<in> set (work_units augmentation_functions 2)"
  by (simp add: work_units_def augmentation_functions_def upto_1_2)

lemma hidden_names_collide:
  "png_files (w_listing hidden_world) = [''.png'', ''.png.png''] \<and>
   splitext ''.png'' = (''.png'', '''') \<and>
   splitext ''.png.png'' = (''.png'', ''.png'') \<and>
   output_name ''.png'' ''curve'' 1 = ''.png_curve_1.png'' \<and>
   output_name ''.png.png'' ''curve'' 1 = ''.png_curve_1.png'' \<and>
   Success ''.png'' ''curve'' 1 ''.png_curve_1.png''
     \<in> set (log_data (finished example_env example_args hidden_world)) \<and>
   Success ''.png.png'' ''curve'' 1 ''.png_curve_1.png''
     \<in> set (log_data (finished example_env example_args hidden_world))"
proof -
  have s1: "splitext ''.png'' = (''.png'', '''')" by code_simp
  have s2: "splitext ''.png.png'' = (''.png'', ''.png'')" by code_simp
  have d: "str_int 1 = ''1''" by (simp add: str_int_def digits.simps)
  have o1: "output_name ''.png'' ''curve'' 1 = ''.png_curve_1.png''"
    by (simp add: output_name_def s1 d)
  have o2: "output_name ''.png.png'' ''curve'' 1 = ''.png_curve_1.png''"
    by (simp add: output_name_def s2 d)
  have e1: "success_entry ''.png'' ((Curve, ''curve''), 1) =
      Success ''.png'' ''curve'' 1 ''.png_curve_1.png''"
    by (simp add: success_entry_def o1)
  have e2: "success_entry ''.png.png'' ((Curve, ''curve''), 1) =
      Success ''.png.png'' ''curve'' 1 ''.png_curve_1.png''"
    by (simp add: success_entry_def o2)
  have m1: "success_entry ''.png'' ((Curve, ''curve''), 1)
      \<in> set (log_data (finished example_env example_args hidden_world))"
    unfolding log_data_hidden using curve_1_work_unit by simp
  have m2: "success_entry ''.png.png'' ((Curve, ''curve''), 1)
      \<in> set (log_data (finished example_env example_args hidden_world))"
    unfolding log_data_hidden using curve_1_work_unit by simp
  show ?thesis using png_files_hidden s1 s2 o1 o2 m1 m2 unfolding e1 e2 by simp
qed

section \<open>Runs whose seed is accepted, and runs whose seed is rejected\<close>

lemma startup_accepted: "seed_accepted (seed A) \<Longrightarrow> startup E A W = Inr (started E A W)"
  by (simp add: startup_def)

lemma run_accepted:
  "seed_accepted (seed A) \<Longrightarrow> run E A catalog W = Inr (processed E A catalog W)"
  by (simp add: run_def startup_def processed_def)

lemma main_accepted: "seed_accepted (seed A) \<Longrightarrow> main E A W = Inr (finished E A W)"
  by (simp add: main_def run_accepted finished_def)

lemma startup_rejected: "\<not> seed_accepted (seed A) \<Longrightarrow> startup E A W = Inl seed_error"
  by (simp add: startup_def)

lemma run_rejected: "\<not> seed_accepted (seed A) \<Longrightarrow> run E A catalog W = Inl seed_error"
  by (simp add: run_def startup_def)

lemma main_rejected: "\<not> seed_accepted (seed A) \<Longrightarrow> main E A W = Inl seed_error"
  by (simp add: main_def run_rejected)

lemma seed_accepted_example: "seed_accepted (seed example_args)"
  by (simp add: seed_accepted_def example_args_def)

lemma seed_accepted_zero: "seed_accepted (seed zero_args)"
  by (simp add: seed_accepted_def zero_args_def)

section \<open>The claims\<close>

text \<open>
  Claim C10. In a run whose seed is accepted, before any image is opened or any operator
  is built, the log file \<^verbatim>\<open>process_log.json\<close> is created, holding the empty array,
  when the result directory has none (also when the directory itself had to be
  created); when it is there, its content stays as it was, and no other file of the
  directory is touched. The loops over the images never write it, so it keeps that
  content until the final write puts the collected records there. A run whose seed is
  rejected ends at the seeding: it creates nothing.
\<close>

theorem log_file_initialised:
  "(seed_accepted (seed A) \<longrightarrow>
      (\<exists>s0 s1 s2 s. startup E A W = Inr s0 \<and> run E A catalog W = Inr s1 \<and>
         run E A augmentation_functions W = Inr s2 \<and> main E A W = Inr s \<and>
         files s0 log_file_name =
           (case w_result_dir W of
              None \<Rightarrow> Some (LogDoc [])
            | Some d \<Rightarrow> (case d log_file_name of None \<Rightarrow> Some (LogDoc []) | Some c \<Rightarrow> Some c)) \<and>
         (\<forall>n. n \<noteq> log_file_name \<longrightarrow>
            files s0 n = (case w_result_dir W of None \<Rightarrow> None | Some d \<Rightarrow> d n)) \<and>
         filter is_opened (trace s0) = [] \<and>
         filter is_op_event (trace s0) = [] \<and>
         quiet_extension s0 s1 \<and>
         files s1 log_file_name = files s0 log_file_name \<and>
         files s log_file_name = Some (LogDoc (log_data s2)))) \<and>
   (\<not> seed_accepted (seed A) \<longrightarrow>
      startup E A W = Inl seed_error \<and> run E A catalog W = Inl seed_error \<and>
      main E A W = Inl seed_error)"
proof (intro conjI impI)
  assume v: "seed_accepted (seed A)"
  note a = started_log_file [of E A W catalog]
  show "\<exists>s0 s1 s2 s. startup E A W = Inr s0 \<and> run E A catalog W = Inr s1 \<and>
         run E A augmentation_functions W = Inr s2 \<and> main E A W = Inr s \<and>
         files s0 log_file_name =
           (case w_result_dir W of
              None \<Rightarrow> Some (LogDoc [])
            | Some d \<Rightarrow> (case d log_file_name of None \<Rightarrow> Some (LogDoc []) | Some c \<Rightarrow> Some c)) \<and>
         (\<forall>n. n \<noteq> log_file_name \<longrightarrow>
            files s0 n = (case w_result_dir W of None \<Rightarrow> None | Some d \<Rightarrow> d n)) \<and>
         filter is_opened (trace s0) = [] \<and>
         filter is_op_event (trace s0) = [] \<and>
         quiet_extension s0 s1 \<and>
         files s1 log_file_name = files s0 log_file_name \<and>
         files s log_file_name = Some (LogDoc (log_data s2))"
    apply (rule exI [of _ "started E A W"])
    apply (rule exI [of _ "processed E A catalog W"])
    apply (rule exI [of _ "processed E A augmentation_functions W"])
    apply (rule exI [of _ "finished E A W"])
    using a v by (simp add: startup_accepted run_accepted main_accepted)
next
  assume "\<not> seed_accepted (seed A)"
  then show "startup E A W = Inl seed_error" by (rule startup_rejected)
next
  assume "\<not> seed_accepted (seed A)"
  then show "run E A catalog W = Inl seed_error" by (rule run_rejected)
next
  assume "\<not> seed_accepted (seed A)"
  then show "main E A W = Inl seed_error" by (rule main_rejected)
qed

theorem log_file_initialised_witness:
  "seed_accepted (seed example_args) \<and>
   (\<exists>s0 s1. startup example_env example_args example_world = Inr s0 \<and>
      run example_env example_args augmentation_functions example_world = Inr s1 \<and>
      files s0 log_file_name = Some (LogDoc []) \<and>
      files s1 log_file_name = Some (LogDoc []) \<and>
      files s0 ''a_curve_1.png'' = None)"
proof -
  have n: "''a_curve_1.png'' \<noteq> log_file_name" by (simp add: log_file_name_def)
  have w: "w_result_dir example_world = None" by (simp add: example_world_def)
  from log_file_initialised [of example_args example_env example_world augmentation_functions]
    seed_accepted_example
  obtain s0 s1 where
    "startup example_env example_args example_world = Inr s0"
    "run example_env example_args augmentation_functions example_world = Inr s1"
    "files s0 log_file_name =
       (case w_result_dir example_world of
          None \<Rightarrow> Some (LogDoc [])
        | Some d \<Rightarrow> (case d log_file_name of None \<Rightarrow> Some (LogDoc []) | Some c \<Rightarrow> Some c))"
    "\<forall>n. n \<noteq> log_file_name \<longrightarrow>
       files s0 n = (case w_result_dir example_world of None \<Rightarrow> None | Some d \<Rightarrow> d n)"
    "files s1 log_file_name = files s0 log_file_name"
    by blast
  then show ?thesis using seed_accepted_example n w by auto
qed

lemma log_writes_started:
  "filter is_log_write (trace (started E A W)) =
     (case w_result_dir W of
        None \<Rightarrow> [Wrote log_file_name (LogDoc [])]
      | Some d \<Rightarrow> (case d log_file_name of
                     None \<Rightarrow> [Wrote log_file_name (LogDoc [])] | Some c \<Rightarrow> []))"
  by (simp add: started_def Let_def split: option.splits)

text \<open>
  Claim C5, as stated, fails: in the run of the example the result directory does not
  exist, and \<^verbatim>\<open>process_log.json\<close> is written twice, once at startup and once at the
  end.
\<close>

theorem run_log_written_once_counterexample:
  "\<exists>s. main example_env example_args example_world = Inr s \<and>
       length (filter is_log_write (trace s)) = 2"
proof -
  let ?s = "finished example_env example_args example_world"
  obtain evs where e: "trace ?s =
      trace (started example_env example_args example_world) @ evs @
        [Wrote log_file_name (LogDoc (log_data ?s))]"
      "filter is_log_write evs = []"
    using finished_log_writes [of example_env example_args example_world]
    by blast
  have "filter is_log_write (trace (started example_env example_args example_world)) =
      [Wrote log_file_name (LogDoc [])]"
    by (simp add: log_writes_started example_world_def)
  then have "length (filter is_log_write (trace ?s)) = 2" using e by simp
  then show ?thesis using main_accepted [OF seed_accepted_example] by blast
qed

text \<open>
  Claim C5, amended. In a run whose seed is accepted, \<^verbatim>\<open>process_log.json\<close> is written
  at startup, before any image is opened, if and only if it does not exist yet, and then
  with the empty array; after startup the steps of the run are the steps \<open>evs\<close> of
  the loops, none of which writes the log file, followed by one write of all the
  collected records to the log file, which is the last step of the run. So whenever the
  run is cut off after \<open>k\<close> steps of the loops, the log file still holds what it held
  after startup (the records collected so far are lost), while every artifact written by
  then is in the result directory. A run whose seed is rejected ends at the seeding and
  writes nothing.
\<close>

theorem run_log_written_once_at_end:
  "(seed_accepted (seed A) \<longrightarrow>
      (\<exists>s0 s1 s evs. startup E A W = Inr s0 \<and> run E A augmentation_functions W = Inr s1 \<and>
         main E A W = Inr s \<and>
         filter is_log_write (trace s0) =
           (case w_result_dir W of
              None \<Rightarrow> [Wrote log_file_name (LogDoc [])]
            | Some d \<Rightarrow> (case d log_file_name of
                           None \<Rightarrow> [Wrote log_file_name (LogDoc [])] | Some c \<Rightarrow> [])) \<and>
         filter is_opened (trace s0) = [] \<and>
         trace s = trace s0 @ evs @ [Wrote log_file_name (LogDoc (log_data s))] \<and>
         filter is_log_write evs = [] \<and>
         log_data s = log_data s1 \<and>
         (\<forall>k\<le>length evs.
            fold apply_event (take k evs) (files s0) log_file_name = files s0 log_file_name) \<and>
         (\<forall>k\<le>length evs. \<forall>n c. Wrote n c \<in> set (take k evs) \<longrightarrow>
            fold apply_event (take k evs) (files s0) n \<noteq> None) \<and>
         files s = (fold apply_event evs (files s0))(log_file_name \<mapsto> LogDoc (log_data s)))) \<and>
   (\<not> seed_accepted (seed A) \<longrightarrow> main E A W = Inl seed_error)"
proof (intro conjI impI)
  assume v: "seed_accepted (seed A)"
  obtain evs where e: "trace (finished E A W) =
        trace (started E A W) @ evs @ [Wrote log_file_name (LogDoc (log_data (finished E A W)))]"
      "filter is_log_write evs = []"
      "log_data (finished E A W) = log_data (processed E A augmentation_functions W)"
      "\<forall>k\<le>length evs.
         fold apply_event (take k evs) (files (started E A W)) log_file_name =
           files (started E A W) log_file_name"
      "\<forall>k\<le>length evs. \<forall>n c. Wrote n c \<in> set (take k evs) \<longrightarrow>
         fold apply_event (take k evs) (files (started E A W)) n \<noteq> None"
      "files (finished E A W) =
         (fold apply_event evs (files (started E A W)))
           (log_file_name \<mapsto> LogDoc (log_data (finished E A W)))"
    using finished_log_writes [of E A W] by blast
  have o: "filter is_opened (trace (started E A W)) = []" by (simp add: started_def Let_def)
  show "\<exists>s0 s1 s evs. startup E A W = Inr s0 \<and> run E A augmentation_functions W = Inr s1 \<and>
         main E A W = Inr s \<and>
         filter is_log_write (trace s0) =
           (case w_result_dir W of
              None \<Rightarrow> [Wrote log_file_name (LogDoc [])]
            | Some d \<Rightarrow> (case d log_file_name of
                           None \<Rightarrow> [Wrote log_file_name (LogDoc [])] | Some c \<Rightarrow> [])) \<and>
         filter is_opened (trace s0) = [] \<and>
         trace s = trace s0 @ evs @ [Wrote log_file_name (LogDoc (log_data s))] \<and>
         filter is_log_write evs = [] \<and>
         log_data s = log_data s1 \<and>
         (\<forall>k\<le>length evs.
            fold apply_event (take k evs) (files s0) log_file_name = files s0 log_file_name) \<and>
         (\<forall>k\<le>length evs. \<forall>n c. Wrote n c \<in> set (take k evs) \<longrightarrow>
            fold apply_event (take k evs) (files s0) n \<noteq> None) \<and>
         files s = (fold apply_event evs (files s0))(log_file_name \<mapsto> LogDoc (log_data s))"
    apply (rule exI [of _ "started E A W"])
    apply (rule exI [of _ "processed E A augmentation_functions W"])
    apply (rule exI [of _ "finished E A W"])
    apply (rule exI [of _ evs])
    using e o log_writes_started [of E A W] startup_accepted [OF v] run_accepted [OF v]
      main_accepted [OF v]
    by (intro conjI) assumption+
next
  assume "\<not> seed_accepted (seed A)"
  then show "main E A W = Inl seed_error" by (rule main_rejected)
qed

theorem run_log_written_once_at_end_witness:
  "seed_accepted (seed example_args) \<and>
   (\<exists>s0 s evs. startup example_env example_args example_world = Inr s0 \<and>
      main example_env example_args example_world = Inr s \<and>
      trace s = trace s0 @ evs @ [Wrote log_file_name (LogDoc (log_data s))] \<and>
      filter is_log_write evs = [])"
  using run_log_written_once_at_end [of example_args example_env example_world]
    seed_accepted_example
  by blast

lemma file_loop_no_units_ops:
  assumes "work_units catalog (max_mag A) = []"
  shows "filter is_op_event (trace (file_loop E A catalog fs s)) = filter is_op_event (trace s)"
proof (induction fs arbitrary: s)
  case Nil
  show ?case by simp
next
  case (Cons f fs)
  have "filter is_op_event (trace (process_file E A catalog f s)) = filter is_op_event (trace s)"
  proof (cases "image_open_resize E f (width A) (height A)")
    case (Inl e)
    then show ?thesis by (simp add: process_file_open_failed)
  next
    case (Inr img)
    then show ?thesis by (simp add: process_file_no_units [OF assms])
  qed
  then show ?case using Cons.IH [of "process_file E A catalog f s"] by simp
qed

text \<open>
  Claim C8. In a run whose seed is accepted: when no file of the image directory ends in
  \<^verbatim>\<open>.png\<close>, the run still ends by writing the log file, which then holds the empty
  array. When \<^verbatim>\<open>max_mag\<close> is below 1 or the catalog is empty, an image has no
  WorkUnits: an image that opens is processed without any operator being built, without
  any record and without an error, and the log of the whole run holds nothing but the
  failure records of the images that could not be opened. (A run whose seed is rejected
  ends at the seeding.)
\<close>

theorem runs_without_work:
  "(seed_accepted (seed A) \<and> png_files (w_listing W) = [] \<longrightarrow>
      (\<exists>s. main E A W = Inr s \<and> log_data s = [] \<and>
         files s log_file_name = Some (LogDoc []) \<and>
         last (trace s) = Wrote log_file_name (LogDoc []))) \<and>
   ((max_mag A < 1 \<or> catalog = []) \<and> image_open_resize E f (width A) (height A) = Inr img \<longrightarrow>
      work_units catalog (max_mag A) = [] \<and>
      try_block E A catalog f s = (Done, s\<lparr>trace := trace s @ [Opened f]\<rparr>) \<and>
      process_file E A catalog f s = s\<lparr>trace := trace s @ [Opened f]\<rparr>) \<and>
   (seed_accepted (seed A) \<and> (max_mag A < 1 \<or> catalog = []) \<longrightarrow>
      (\<exists>s1. run E A catalog W = Inr s1 \<and>
         log_data s1 = open_failure_records E A (png_files (w_listing W)) \<and>
         filter is_op_event (trace s1) = [] \<and>
         files (save_log s1) log_file_name =
           Some (LogDoc (open_failure_records E A (png_files (w_listing W)))))) \<and>
   (\<not> seed_accepted (seed A) \<longrightarrow> main E A W = Inl seed_error)"
proof (intro conjI impI)
  assume a: "seed_accepted (seed A) \<and> png_files (w_listing W) = []"
  then have "log_data (finished E A W) = [] \<and>
      files (finished E A W) log_file_name = Some (LogDoc []) \<and>
      last (trace (finished E A W)) = Wrote log_file_name (LogDoc [])"
    using no_work_runs [where W = W and E = E and A = A and catalog = catalog
        and f = f and img = img and s = s] by blast
  then show "\<exists>s. main E A W = Inr s \<and> log_data s = [] \<and>
         files s log_file_name = Some (LogDoc []) \<and>
         last (trace s) = Wrote log_file_name (LogDoc [])"
    using a main_accepted [where A = A and E = E and W = W] by blast
next
  assume a: "(max_mag A < 1 \<or> catalog = []) \<and>
    image_open_resize E f (width A) (height A) = Inr img"
  then have r: "work_units catalog (max_mag A) = [] \<and>
      try_block E A catalog f s = (Done, s\<lparr>trace := trace s @ [Opened f]\<rparr>) \<and>
      process_file E A catalog f s = s\<lparr>trace := trace s @ [Opened f]\<rparr>"
    using no_work_runs [where W = W and E = E and A = A and catalog = catalog
        and f = f and img = img and s = s] by blast
  from r show "work_units catalog (max_mag A) = []" by simp
  from r show "try_block E A catalog f s = (Done, s\<lparr>trace := trace s @ [Opened f]\<rparr>)" by simp
  from r show "process_file E A catalog f s = s\<lparr>trace := trace s @ [Opened f]\<rparr>" by simp
next
  assume a: "seed_accepted (seed A) \<and> (max_mag A < 1 \<or> catalog = [])"
  then have r: "log_data (processed E A catalog W) =
        open_failure_records E A (png_files (w_listing W)) \<and>
      files (save_log (processed E A catalog W)) log_file_name =
        Some (LogDoc (open_failure_records E A (png_files (w_listing W))))"
    using no_work_runs [where W = W and E = E and A = A and catalog = catalog
        and f = f and img = img and s = s] by blast
  have u: "work_units catalog (max_mag A) = []" using a work_units_empty by blast
  have o: "filter is_op_event (trace (processed E A catalog W)) = []"
    unfolding processed_def
    by (simp add: file_loop_no_units_ops [OF u] started_def Let_def)
  show "\<exists>s1. run E A catalog W = Inr s1 \<and>
         log_data s1 = open_failure_records E A (png_files (w_listing W)) \<and>
         filter is_op_event (trace s1) = [] \<and>
         files (save_log s1) log_file_name =
           Some (LogDoc (open_failure_records E A (png_files (w_listing W))))"
    using r o a run_accepted [where A = A and E = E and catalog = catalog and W = W] by blast
next
  assume "\<not> seed_accepted (seed A)"
  then show "main E A W = Inl seed_error" by (rule main_rejected)
qed

theorem runs_without_work_witness:
  "seed_accepted (seed example_args) \<and> png_files (w_listing empty_world) = [] \<and>
   (\<exists>s. main example_env example_args empty_world = Inr s \<and> log_data s = [] \<and>
      files s log_file_name = Some (LogDoc [])) \<and>
   seed_accepted (seed zero_args) \<and> max_mag zero_args < 1 \<and>
   image_open_resize example_env ''a.png'' (width zero_args) (height zero_args) = Inr 5 \<and>
   process_file example_env zero_args augmentation_functions ''a.png''
       (started example_env zero_args example_world) =
     (started example_env zero_args example_world)
       \<lparr>trace := trace (started example_env zero_args example_world) @ [Opened ''a.png'']\<rparr> \<and>
   (\<exists>s1. run example_env zero_args augmentation_functions example_world = Inr s1 \<and>
      log_data s1 = [Failure ''bad.png'' ''cannot identify image file''])"
proof -
  have e: "png_files (w_listing empty_world) = []"
    by (simp add: png_files_def empty_world_def endswith_def)
  have z: "max_mag zero_args < 1" by (simp add: zero_args_def)
  have a: "image_open_resize example_env ''a.png'' (width zero_args) (height zero_args) = Inr 5"
    by (simp add: example_env_def)
  have o: "open_failure_records example_env zero_args (png_files (w_listing example_world)) =
      [Failure ''bad.png'' ''cannot identify image file'']"
    by (simp add: open_failure_records_def png_files_example example_env_def)
  note t1 = runs_without_work [where A = example_args and W = empty_world and E = example_env
      and catalog = augmentation_functions and f = "''a.png''" and img = 5
      and s = "started example_env zero_args example_world"]
  note t2 = runs_without_work [where A = zero_args and W = example_world and E = example_env
      and catalog = augmentation_functions and f = "''a.png''" and img = 5
      and s = "started example_env zero_args example_world"]
  have 1: "\<exists>s. main example_env example_args empty_world = Inr s \<and> log_data s = [] \<and>
      files s log_file_name = Some (LogDoc [])"
    using t1 e seed_accepted_example by blast
  have 2: "process_file example_env zero_args augmentation_functions ''a.png''
       (started example_env zero_args example_world) =
     (started example_env zero_args example_world)
       \<lparr>trace := trace (started example_env zero_args example_world) @ [Opened ''a.png'']\<rparr>"
    using t2 z a by blast
  have 3: "\<exists>s1. run example_env zero_args augmentation_functions example_world = Inr s1 \<and>
      log_data s1 = [Failure ''bad.png'' ''cannot identify image file'']"
    using t2 z seed_accepted_zero o by auto
  show ?thesis using e z a 1 2 3 seed_accepted_example seed_accepted_zero by blast
qed

text \<open>
  Claim C9. The names that \<^verbatim>\<open>os.listdir\<close> returns are distinct. Then a run whose
  seed is accepted ends with a log in which the records of one source image form one
  contiguous block (any record between two records of the same image is a record of
  that image), and no record of an image follows a failure record of that image: the
  failure record of an image, if there is one, is the last record of its block, it is
  the only one, and the success records of the image come before it. (A run whose seed
  is rejected ends at the seeding and has no log.)
\<close>

theorem log_blocks_per_image:
  assumes "distinct (w_listing W)"
  shows "(seed_accepted (seed A) \<longrightarrow>
      (\<exists>s. main E A W = Inr s \<and>
         (\<forall>i j k. i < j \<and> j < k \<and> k < length (log_data s) \<and>
            entry_file (log_data s ! i) = entry_file (log_data s ! k) \<longrightarrow>
            entry_file (log_data s ! j) = entry_file (log_data s ! i)) \<and>
         (\<forall>i j. i < j \<and> j < length (log_data s) \<and> is_failure (log_data s ! i) \<longrightarrow>
            entry_file (log_data s ! j) \<noteq> entry_file (log_data s ! i)))) \<and>
    (\<not> seed_accepted (seed A) \<longrightarrow> main E A W = Inl seed_error)"
proof (intro conjI impI)
  assume v: "seed_accepted (seed A)"
  show "\<exists>s. main E A W = Inr s \<and>
         (\<forall>i j k. i < j \<and> j < k \<and> k < length (log_data s) \<and>
            entry_file (log_data s ! i) = entry_file (log_data s ! k) \<longrightarrow>
            entry_file (log_data s ! j) = entry_file (log_data s ! i)) \<and>
         (\<forall>i j. i < j \<and> j < length (log_data s) \<and> is_failure (log_data s ! i) \<longrightarrow>
            entry_file (log_data s ! j) \<noteq> entry_file (log_data s ! i))"
    apply (rule exI [of _ "finished E A W"])
    using main_accepted [OF v] processed_log_blocks [OF assms, of E A]
    by (intro conjI) blast+
next
  assume "\<not> seed_accepted (seed A)"
  then show "main E A W = Inl seed_error" by (rule main_rejected)
qed

theorem log_blocks_per_image_witness:
  "distinct (w_listing example_world) \<and> seed_accepted (seed example_args) \<and>
   (\<exists>s. main example_env example_args example_world = Inr s \<and>
      entry_file (log_data s ! 0) = entry_file (log_data s ! 2) \<and>
      entry_file (log_data s ! 1) = entry_file (log_data s ! 0) \<and>
      is_failure (log_data s ! 54) \<and>
      length (log_data s) = 55)"
proof -
  let ?L = "log_data (finished example_env example_args example_world)"
  have d: "distinct (w_listing example_world)" by (simp add: example_world_def)
  have u: "length (work_units augmentation_functions 2) = 54"
    by (simp add: length_work_units length_augmentation_functions)
  have n: "length ?L = 55" by (simp add: log_data_example u)
  have e: "entry_file (?L ! 0) = entry_file (?L ! 2)"
    by (simp add: log_data_example nth_append u success_entry_def)
  have f: "is_failure (?L ! 54)"
    by (simp add: log_data_example nth_append u)
  have h: "(0::nat) < 1 \<and> (1::nat) < 2 \<and> 2 < length ?L \<and>
      entry_file (?L ! 0) = entry_file (?L ! 2)"
    using e n by simp
  have m: "main example_env example_args example_world =
      Inr (finished example_env example_args example_world)"
    by (rule main_accepted [OF seed_accepted_example])
  from log_blocks_per_image [OF d, of example_args example_env] seed_accepted_example
  obtain s where s: "main example_env example_args example_world = Inr s"
    "\<forall>i j k. i < j \<and> j < k \<and> k < length (log_data s) \<and>
       entry_file (log_data s ! i) = entry_file (log_data s ! k) \<longrightarrow>
       entry_file (log_data s ! j) = entry_file (log_data s ! i)"
    by blast
  have eq: "s = finished example_env example_args example_world" using s(1) m by simp
  have "entry_file (?L ! 1) = entry_file (?L ! 0)"
    using s(2) [unfolded eq, rule_format, of 0 1 2, OF h] .
  then show ?thesis using d e f n m seed_accepted_example by blast
qed

text \<open>
  Claim C7, as stated, fails: in the run of the example (one image that opens,
  \<^verbatim>\<open>max_mag\<close> 2) the 27 operator classes of the catalog are constructed 54 times in
  all, the class \<^verbatim>\<open>Curve\<close> twice, once for each magnitude.
\<close>

theorem operator_constructed_once_counterexample:
  "\<exists>s. main example_env example_args example_world = Inr s \<and>
     length (constructions (trace s)) = 54 \<and>
     length (filter (\<lambda>c. c = Curve) (constructions (trace s))) = 2 \<and>
     length augmentation_functions = 27"
  using main_accepted [OF seed_accepted_example, of example_env example_world]
    example_constructions
  by blast

text \<open>
  Claim C7, amended. The catalog lists operator classes, and nothing is constructed
  before the first image is opened. \<^verbatim>\<open>apply_augmentation\<close> constructs a new instance
  for every WorkUnit and calls it once: the constructions and calls of a run, in order,
  are groups of a construction alone (it raised) or a construction followed by the one
  call of the new instance. So no instance serves two calls, and a run constructs at
  least as many instances as it appends success records. (This is for a run whose seed
  is accepted; one whose seed is rejected ends at the seeding.)
\<close>

theorem operator_constructed_per_work_unit:
  "(seed_accepted (seed A) \<longrightarrow>
      (\<exists>s0 s. startup E A W = Inr s0 \<and> main E A W = Inr s \<and>
         filter is_op_event (trace s0) = [] \<and>
         (\<exists>chunks. filter is_op_event (trace s) = concat chunks \<and>
            list_all is_call_chunk chunks) \<and>
         length (filter is_success (log_data s)) \<le> length (constructions (trace s)))) \<and>
   (\<not> seed_accepted (seed A) \<longrightarrow> main E A W = Inl seed_error)"
proof (intro conjI impI)
  assume v: "seed_accepted (seed A)"
  show "\<exists>s0 s. startup E A W = Inr s0 \<and> main E A W = Inr s \<and>
         filter is_op_event (trace s0) = [] \<and>
         (\<exists>chunks. filter is_op_event (trace s) = concat chunks \<and>
            list_all is_call_chunk chunks) \<and>
         length (filter is_success (log_data s)) \<le> length (constructions (trace s))"
    apply (rule exI [of _ "started E A W"])
    apply (rule exI [of _ "finished E A W"])
    using startup_accepted [OF v] main_accepted [OF v]
      constructions_per_work_unit [of E A W]
    by (intro conjI) blast+
next
  assume "\<not> seed_accepted (seed A)"
  then show "main E A W = Inl seed_error" by (rule main_rejected)
qed

theorem operator_constructed_per_work_unit_witness:
  "seed_accepted (seed example_args) \<and>
   (\<exists>s. main example_env example_args example_world = Inr s \<and>
      length (filter is_success (log_data s)) \<le> length (constructions (trace s)))"
  using operator_constructed_per_work_unit [of example_args example_env example_world]
    seed_accepted_example
  by blast

text \<open>
  Claim C4 at an image directory that holds the two files \<^verbatim>\<open>.png\<close> and
  \<^verbatim>\<open>.png.png\<close>. Both names end in \<^verbatim>\<open>.png\<close>, so both are processed.
  \<^verbatim>\<open>os.path.splitext\<close> takes a name made of leading dots and no other dot as having no
  extension, so the base name of \<^verbatim>\<open>.png\<close> is \<^verbatim>\<open>.png\<close>, which is also the base name
  of \<^verbatim>\<open>.png.png\<close>: the WorkUnits of the two images for the same operator and magnitude
  get the same output file name, and the log of the run holds two success records, for
  different source files, with the same output file.
\<close>

theorem output_name_collision:
  "png_files (w_listing hidden_world) = [''.png'', ''.png.png''] \<and>
   splitext ''.png'' = (''.png'', '''') \<and>
   splitext ''.png.png'' = (''.png'', ''.png'') \<and>
   output_name ''.png'' ''curve'' 1 = ''.png_curve_1.png'' \<and>
   output_name ''.png.png'' ''curve'' 1 = ''.png_curve_1.png'' \<and>
   (\<exists>s. main example_env example_args hidden_world = Inr s \<and>
      Success ''.png'' ''curve'' 1 ''.png_curve_1.png'' \<in> set (log_data s) \<and>
      Success ''.png.png'' ''curve'' 1 ''.png_curve_1.png'' \<in> set (log_data s))"
  using main_accepted [OF seed_accepted_example, of example_env hidden_world]
    hidden_names_collide
  by blast

text \<open>
  Claim C6. In a run whose seed is accepted, the generator is seeded as the first step
  and never again, so the loops start from the generator state that the seed gives,
  whatever the state was before. Take two runs with the same seed, arguments, operators
  and images (the same \<open>E\<close> and \<open>A\<close>) and the same listing, from any two
  generator states and any two result directories. They leave the same log records and
  the same generator state, they take the same steps after startup, and every file that
  the first run writes has the same content after both runs. When the seed is rejected,
  both runs end at the seeding with the same exception.
\<close>

theorem runs_deterministic:
  assumes "w_listing W1 = w_listing W2"
  shows "(seed_accepted (seed A) \<longrightarrow>
      (\<exists>t1 t2 s1 s2. startup E A W1 = Inr t1 \<and> startup E A W2 = Inr t2 \<and>
         main E A W1 = Inr s1 \<and> main E A W2 = Inr s2 \<and>
         log_data s1 = log_data s2 \<and>
         rng s1 = rng s2 \<and>
         (\<exists>evs. trace s1 = trace t1 @ evs \<and> trace s2 = trace t2 @ evs \<and>
            files s1 = fold apply_event evs (files t1) \<and>
            files s2 = fold apply_event evs (files t2)) \<and>
         (\<forall>n c. Wrote n c \<in> set (trace s1) \<longrightarrow> files s1 n = files s2 n) \<and>
         filter is_seeded (trace s1) = [Seeded (seed A)] \<and>
         hd (trace s1) = Seeded (seed A) \<and>
         rng t1 = np_random_seed E (seed A))) \<and>
    (\<not> seed_accepted (seed A) \<longrightarrow>
       main E A W1 = Inl seed_error \<and> main E A W2 = Inl seed_error)"
proof (intro conjI impI)
  assume v: "seed_accepted (seed A)"
  note d = processed_deterministic [OF assms, of E A]
  show "\<exists>t1 t2 s1 s2. startup E A W1 = Inr t1 \<and> startup E A W2 = Inr t2 \<and>
         main E A W1 = Inr s1 \<and> main E A W2 = Inr s2 \<and>
         log_data s1 = log_data s2 \<and>
         rng s1 = rng s2 \<and>
         (\<exists>evs. trace s1 = trace t1 @ evs \<and> trace s2 = trace t2 @ evs \<and>
            files s1 = fold apply_event evs (files t1) \<and>
            files s2 = fold apply_event evs (files t2)) \<and>
         (\<forall>n c. Wrote n c \<in> set (trace s1) \<longrightarrow> files s1 n = files s2 n) \<and>
         filter is_seeded (trace s1) = [Seeded (seed A)] \<and>
         hd (trace s1) = Seeded (seed A) \<and>
         rng t1 = np_random_seed E (seed A)"
    apply (rule exI [of _ "started E A W1"])
    apply (rule exI [of _ "started E A W2"])
    apply (rule exI [of _ "finished E A W1"])
    apply (rule exI [of _ "finished E A W2"])
    using startup_accepted [OF v] main_accepted [OF v] d
    by (intro conjI) blast+
next
  assume "\<not> seed_accepted (seed A)"
  then show "main E A W1 = Inl seed_error" by (rule main_rejected)
next
  assume "\<not> seed_accepted (seed A)"
  then show "main E A W2 = Inl seed_error" by (rule main_rejected)
qed

theorem runs_deterministic_witness:
  "w_listing example_world = w_listing other_world \<and>
   w_rng example_world \<noteq> w_rng other_world \<and>
   w_result_dir example_world \<noteq> w_result_dir other_world \<and>
   seed_accepted (seed example_args) \<and>
   (\<exists>s1 s2. main example_env example_args example_world = Inr s1 \<and>
      main example_env example_args other_world = Inr s2 \<and>
      log_data s1 = log_data s2 \<and> rng s1 = rng s2)"
proof -
  have h: "w_listing example_world = w_listing other_world"
    by (simp add: example_world_def other_world_def)
  have d: "w_rng example_world \<noteq> w_rng other_world"
    "w_result_dir example_world \<noteq> w_result_dir other_world"
    by (simp_all add: example_world_def other_world_def)
  have "\<exists>s1 s2. main example_env example_args example_world = Inr s1 \<and>
      main example_env example_args other_world = Inr s2 \<and>
      log_data s1 = log_data s2 \<and> rng s1 = rng s2"
    using runs_deterministic [OF h, of example_args example_env] seed_accepted_example
    by blast
  then show ?thesis using h d seed_accepted_example by blast
qed

section \<open>The steps and the records of one image\<close>

lemma unit_loop_Done_steps:
  "unit_loop E f img us s = (Done, s1) \<Longrightarrow>
     filter is_step (trace s1) = filter is_step (trace s) @ map invoked_event us"
proof (induction us arbitrary: s)
  case Nil
  then show ?case by simp
next
  case (Cons u us)
  obtain out s0 where w: "work_unit E f img (fst u) (snd u) s = (out, s0)"
    by (cases "work_unit E f img (fst u) (snd u) s")
  show ?case
  proof (cases out)
    case Done
    then have l: "unit_loop E f img us s0 = (Done, s1)" using Cons.prems w by simp
    have a: "filter is_step (trace s0) = filter is_step (trace s) @ [invoked_event u]"
      using work_unit_steps [OF w] Done by simp
    have "filter is_step (trace s1) = filter is_step (trace s0) @ map invoked_event us"
      using l by (rule Cons.IH)
    then show ?thesis using a by simp
  next
    case (Raised e)
    then show ?thesis using Cons.prems w by simp
  qed
qed

lemma unit_loop_Raised_run:
  assumes "unit_loop E f img us s = (Raised e, s1)"
  shows "\<exists>k j. k < length us \<and> (j = k \<or> j = Suc k) \<and>
    log_data s1 = log_data s @ map (success_entry f) (take k us) \<and>
    filter is_step (trace s1) = filter is_step (trace s) @ map invoked_event (take j us)"
proof -
  obtain pre u post s0 where
    p: "us = pre @ u # post" "unit_loop E f img pre s = (Done, s0)"
       "work_unit E f img (fst u) (snd u) s0 = (Raised e, s1)"
    using unit_loop_Raised [OF assms] by blast
  have k: "length pre < length us" using p(1) by simp
  have t0: "take (length pre) us = pre" using p(1) by simp
  have t1: "take (Suc (length pre)) us = pre @ [u]" using p(1) by simp
  have "log_data s1 = log_data s0" using p(3) by (rule work_unit_Raised(1))
  also have "\<dots> = log_data s @ map (success_entry f) pre" using p(2) by (rule unit_loop_Done)
  finally have l: "log_data s1 = log_data s @ map (success_entry f) (take (length pre) us)"
    using t0 by simp
  have s0: "filter is_step (trace s0) = filter is_step (trace s) @ map invoked_event pre"
    using p(2) by (rule unit_loop_Done_steps)
  from work_unit_steps [OF p(3)] show ?thesis
  proof
    assume "filter is_step (trace s1) =
      filter is_step (trace s0) @ [invoked_event (fst u, snd u)]"
    then have "filter is_step (trace s1) =
        filter is_step (trace s) @ map invoked_event (take (Suc (length pre)) us)"
      using s0 t1 by simp
    then show ?thesis using k l by blast
  next
    assume "Raised e \<noteq> Done \<and> filter is_step (trace s1) = filter is_step (trace s0)"
    then have "filter is_step (trace s1) =
        filter is_step (trace s) @ map invoked_event (take (length pre) us)"
      using s0 t0 by simp
    then show ?thesis using k l by blast
  qed
qed

lemma image_run_open_failed: "image_run us f [Opened f] [Failure f e]"
  unfolding image_run_def
  by (rule exI [of _ 0], rule exI [of _ 0], rule exI [of _ "[Failure f e]"]) simp

lemma image_run_all:
  "image_run us f (Opened f # map invoked_event us) (map (success_entry f) us)"
  unfolding image_run_def
  by (rule exI [of _ "length us"], rule exI [of _ "length us"], rule exI [of _ "[]"]) simp

lemma image_run_raised:
  assumes "k < length us" "j = k \<or> j = Suc k"
  shows "image_run us f (Opened f # map invoked_event (take j us))
    (map (success_entry f) (take k us) @ [Failure f e])"
  unfolding image_run_def
  using assms
  by (intro exI [of _ k] exI [of _ j] exI [of _ "[Failure f e]"]) simp

lemma process_file_run:
  "\<exists>steps block. image_run (work_units catalog (max_mag A)) f steps block \<and>
     filter is_step (trace (process_file E A catalog f s)) = filter is_step (trace s) @ steps \<and>
     log_data (process_file E A catalog f s) = log_data s @ block"
proof (cases "image_open_resize E f (width A) (height A)")
  case (Inl e)
  then have "filter is_step (trace (process_file E A catalog f s)) =
      filter is_step (trace s) @ [Opened f]"
    "log_data (process_file E A catalog f s) = log_data s @ [Failure f e]"
    by (simp_all add: process_file_open_failed)
  then show ?thesis using image_run_open_failed by blast
next
  case (Inr img)
  let ?us = "work_units catalog (max_mag A)"
  let ?so = "s\<lparr>trace := trace s @ [Opened f]\<rparr>"
  obtain out s1 where u: "unit_loop E f img ?us ?so = (out, s1)"
    by (cases "unit_loop E f img ?us ?so")
  then have t: "try_block E A catalog f s = (out, s1)"
    using Inr by (simp add: try_block_def func_loop_unit_loop)
  show ?thesis
  proof (cases out)
    case Done
    have l: "log_data s1 = log_data ?so @ map (success_entry f) ?us"
      using u Done unit_loop_Done [of E f img ?us ?so s1] by simp
    have st: "filter is_step (trace s1) = filter is_step (trace ?so) @ map invoked_event ?us"
      using u Done unit_loop_Done_steps [of E f img ?us ?so s1] by simp
    have "filter is_step (trace (process_file E A catalog f s)) =
        filter is_step (trace s) @ (Opened f # map invoked_event ?us)"
      "log_data (process_file E A catalog f s) = log_data s @ map (success_entry f) ?us"
      using t Done l st by (simp_all add: process_file_def)
    then show ?thesis using image_run_all by blast
  next
    case (Raised e)
    obtain k j where k: "k < length ?us" "j = k \<or> j = Suc k"
        "log_data s1 = log_data ?so @ map (success_entry f) (take k ?us)"
        "filter is_step (trace s1) =
           filter is_step (trace ?so) @ map invoked_event (take j ?us)"
      using u Raised unit_loop_Raised_run [of E f img ?us ?so e s1] by auto
    have "filter is_step (trace (process_file E A catalog f s)) =
        filter is_step (trace s) @ (Opened f # map invoked_event (take j ?us))"
      "log_data (process_file E A catalog f s) =
        log_data s @ (map (success_entry f) (take k ?us) @ [Failure f e])"
      using t Raised k(3,4) by (simp_all add: process_file_def)
    then show ?thesis using image_run_raised [OF k(1,2)] by blast
  qed
qed

lemma file_loop_runs:
  "\<exists>rs. list_all2 (\<lambda>f r. image_run (work_units catalog (max_mag A)) f (fst r) (snd r)) fs rs \<and>
     filter is_step (trace (file_loop E A catalog fs s)) =
       filter is_step (trace s) @ concat (map fst rs) \<and>
     log_data (file_loop E A catalog fs s) = log_data s @ concat (map snd rs)"
proof (induction fs arbitrary: s)
  case Nil
  show ?case by simp
next
  case (Cons f fs)
  let ?us = "work_units catalog (max_mag A)"
  let ?p = "process_file E A catalog f s"
  obtain steps block where b: "image_run ?us f steps block"
      "filter is_step (trace ?p) = filter is_step (trace s) @ steps"
      "log_data ?p = log_data s @ block"
    using process_file_run [of catalog A f E s] by blast
  obtain rs where rs: "list_all2 (\<lambda>f r. image_run ?us f (fst r) (snd r)) fs rs"
      "filter is_step (trace (file_loop E A catalog fs ?p)) =
         filter is_step (trace ?p) @ concat (map fst rs)"
      "log_data (file_loop E A catalog fs ?p) = log_data ?p @ concat (map snd rs)"
    using Cons.IH [of ?p] by blast
  have 1: "list_all2 (\<lambda>f r. image_run ?us f (fst r) (snd r)) (f # fs) ((steps, block) # rs)"
    using b(1) rs(1) by simp
  have 2: "filter is_step (trace (file_loop E A catalog (f # fs) s)) =
      filter is_step (trace s) @ concat (map fst ((steps, block) # rs))"
    using b(2) rs(2) by simp
  have 3: "log_data (file_loop E A catalog (f # fs) s) =
      log_data s @ concat (map snd ((steps, block) # rs))"
    using b(3) rs(3) by simp
  show ?case using 1 2 3 by blast
qed

lemma process_file_total_steps:
  assumes "operators_total E" "image_open_resize E f (width A) (height A) = Inr img"
  shows "filter is_step (trace (process_file E A catalog f s)) =
           filter is_step (trace s) @
             Opened f # map invoked_event (work_units catalog (max_mag A))"
proof -
  let ?us = "work_units catalog (max_mag A)"
  let ?so = "s\<lparr>trace := trace s @ [Opened f]\<rparr>"
  obtain out s1 where u: "unit_loop E f img ?us ?so = (out, s1)"
    by (cases "unit_loop E f img ?us ?so")
  then have d: "out = Done" using unit_loop_total [OF assms(1), of f img ?us ?so] by simp
  have "filter is_step (trace s1) = filter is_step (trace ?so) @ map invoked_event ?us"
    using u d unit_loop_Done_steps [of E f img ?us ?so s1] by simp
  moreover have "try_block E A catalog f s = (Done, s1)"
    using u d assms(2) by (simp add: try_block_def func_loop_unit_loop)
  ultimately show ?thesis by (simp add: process_file_def)
qed

lemma file_loop_total:
  assumes "operators_total E"
    and "\<forall>f\<in>set fs. \<exists>img. image_open_resize E f (width A) (height A) = Inr img"
  shows "log_data (file_loop E A catalog fs s) =
      log_data s @ concat (map (\<lambda>f. map (success_entry f) (work_units catalog (max_mag A))) fs) \<and>
    filter is_step (trace (file_loop E A catalog fs s)) =
      filter is_step (trace s) @
        concat (map (\<lambda>f. Opened f # map invoked_event (work_units catalog (max_mag A))) fs)"
  using assms(2)
proof (induction fs arbitrary: s)
  case Nil
  show ?case by simp
next
  case (Cons f fs)
  obtain img where i: "image_open_resize E f (width A) (height A) = Inr img"
    using Cons.prems by auto
  have r: "\<forall>f\<in>set fs. \<exists>img. image_open_resize E f (width A) (height A) = Inr img"
    using Cons.prems by simp
  note l = process_file_total [OF assms(1) i, of catalog s]
  note t = process_file_total_steps [OF assms(1) i, of catalog s]
  show ?case using Cons.IH [OF r, of "process_file E A catalog f s"] l t by simp
qed

text \<open>
  Claim C3. The two inner loops run the WorkUnits of an image one after the other in
  the order of \<open>work_units\<close>: operators in catalog order and, for each operator, the
  magnitudes from 1 up to \<^verbatim>\<open>max_mag\<close>. In a run whose seed is accepted, the steps
  (opening an image, calling an operator) and the log are, image after image in the
  order of the listing, what \<open>image_run\<close> says: the image is opened, its WorkUnits are
  called in that order and the success record of each is appended in that order, all of
  them unless an exception ends the image. When no operator raises and every image
  opens, every WorkUnit of every image is called and recorded, in that order. (A run
  whose seed is rejected ends at the seeding.)
\<close>

theorem work_units_in_order:
  "func_loop E (max_mag A) f img catalog s =
     unit_loop E f img (work_units catalog (max_mag A)) s \<and>
   work_units catalog (max_mag A) =
     concat (map (\<lambda>fn. map (\<lambda>mag. (fn, mag)) [1..max_mag A]) catalog) \<and>
   (seed_accepted (seed A) \<longrightarrow>
      (\<exists>t rs. main E A W = Inr t \<and>
         list_all2 (\<lambda>f r. image_run (work_units augmentation_functions (max_mag A)) f
             (fst r) (snd r)) (png_files (w_listing W)) rs \<and>
         filter is_step (trace t) = concat (map fst rs) \<and>
         log_data t = concat (map snd rs))) \<and>
   (seed_accepted (seed A) \<and> operators_total E \<and>
    (\<forall>f\<in>set (png_files (w_listing W)).
       \<exists>img. image_open_resize E f (width A) (height A) = Inr img) \<longrightarrow>
      (\<exists>t. main E A W = Inr t \<and>
         log_data t =
           concat (map (\<lambda>f. map (success_entry f)
             (work_units augmentation_functions (max_mag A))) (png_files (w_listing W))) \<and>
         filter is_step (trace t) =
           concat (map (\<lambda>f. Opened f # map invoked_event
             (work_units augmentation_functions (max_mag A))) (png_files (w_listing W))))) \<and>
   (\<not> seed_accepted (seed A) \<longrightarrow> main E A W = Inl seed_error)"
proof (intro conjI impI)
  show "func_loop E (max_mag A) f img catalog s =
      unit_loop E f img (work_units catalog (max_mag A)) s"
    by (rule func_loop_unit_loop)
next
  show "work_units catalog (max_mag A) =
      concat (map (\<lambda>fn. map (\<lambda>mag. (fn, mag)) [1..max_mag A]) catalog)"
    by (simp add: work_units_def)
next
  assume v: "seed_accepted (seed A)"
  let ?us = "work_units augmentation_functions (max_mag A)"
  let ?fs = "png_files (w_listing W)"
  have s0: "filter is_step (trace (started E A W)) = []" "log_data (started E A W) = []"
    by (simp_all add: started_def Let_def)
  obtain rs where rs: "list_all2 (\<lambda>f r. image_run ?us f (fst r) (snd r)) ?fs rs"
      "filter is_step (trace (processed E A augmentation_functions W)) = concat (map fst rs)"
      "log_data (processed E A augmentation_functions W) = concat (map snd rs)"
    using file_loop_runs [of augmentation_functions A ?fs E "started E A W"] s0
    unfolding processed_def by auto
  have 1: "filter is_step (trace (finished E A W)) = concat (map fst rs)"
    using rs(2) by (simp add: finished_def save_log_def)
  have 2: "log_data (finished E A W) = concat (map snd rs)"
    using rs(3) by (simp add: finished_def save_log_def)
  show "\<exists>t rs. main E A W = Inr t \<and>
         list_all2 (\<lambda>f r. image_run ?us f (fst r) (snd r)) ?fs rs \<and>
         filter is_step (trace t) = concat (map fst rs) \<and>
         log_data t = concat (map snd rs)"
    using main_accepted [OF v] rs(1) 1 2 by blast
next
  assume a: "seed_accepted (seed A) \<and> operators_total E \<and>
    (\<forall>f\<in>set (png_files (w_listing W)).
       \<exists>img. image_open_resize E f (width A) (height A) = Inr img)"
  let ?us = "work_units augmentation_functions (max_mag A)"
  let ?fs = "png_files (w_listing W)"
  have s0: "filter is_step (trace (started E A W)) = []" "log_data (started E A W) = []"
    by (simp_all add: started_def Let_def)
  have t: "operators_total E" using a by simp
  have o: "\<forall>f\<in>set ?fs. \<exists>img. image_open_resize E f (width A) (height A) = Inr img"
    using a by simp
  note fl = file_loop_total [OF t o, of augmentation_functions "started E A W"]
  have 1: "log_data (finished E A W) = concat (map (\<lambda>f. map (success_entry f) ?us) ?fs)"
    using fl s0 by (simp add: finished_def processed_def save_log_def)
  have 2: "filter is_step (trace (finished E A W)) =
      concat (map (\<lambda>f. Opened f # map invoked_event ?us) ?fs)"
    using fl s0 by (simp add: finished_def processed_def save_log_def)
  show "\<exists>t. main E A W = Inr t \<and>
         log_data t = concat (map (\<lambda>f. map (success_entry f) ?us) ?fs) \<and>
         filter is_step (trace t) = concat (map (\<lambda>f. Opened f # map invoked_event ?us) ?fs)"
    using a main_accepted [of A E W] 1 2 by blast
next
  assume "\<not> seed_accepted (seed A)"
  then show "main E A W = Inl seed_error" by (rule main_rejected)
qed

theorem work_units_in_order_witness:
  "seed_accepted (seed example_args) \<and> operators_total example_env \<and>
   png_files (w_listing good_world) = [''a.png'', ''b.png''] \<and>
   work_units [(Rotate, ''rotate''), (Fog, ''fog'')] (max_mag example_args) =
     [((Rotate, ''rotate''), 1), ((Rotate, ''rotate''), 2),
      ((Fog, ''fog''), 1), ((Fog, ''fog''), 2)] \<and>
   (\<exists>t. main example_env example_args good_world = Inr t \<and>
      log_data t =
        map (success_entry ''a.png'') (work_units augmentation_functions 2) @
        map (success_entry ''b.png'') (work_units augmentation_functions 2) \<and>
      filter is_step (trace t) =
        Opened ''a.png'' # map invoked_event (work_units augmentation_functions 2) @
        Opened ''b.png'' # map invoked_event (work_units augmentation_functions 2))"
proof -
  have p: "png_files (w_listing good_world) = [''a.png'', ''b.png'']"
    by (simp add: png_files_def good_world_def endswith_def)
  have o: "\<forall>f\<in>set (png_files (w_listing good_world)).
      \<exists>img. image_open_resize example_env f (width example_args) (height example_args) = Inr img"
    by (simp add: p example_env_def)
  have m: "max_mag example_args = 2" by (simp add: example_args_def)
  note t = work_units_in_order [where A = example_args and E = example_env and W = good_world
      and catalog = "[(Rotate, ''rotate''), (Fog, ''fog'')]"]
  have 1: "work_units [(Rotate, ''rotate''), (Fog, ''fog'')] (max_mag example_args) =
     [((Rotate, ''rotate''), 1), ((Rotate, ''rotate''), 2),
      ((Fog, ''fog''), 1), ((Fog, ''fog''), 2)]"
    using t by (simp add: m upto_1_2)
  have "\<exists>t. main example_env example_args good_world = Inr t \<and>
      log_data t =
        concat (map (\<lambda>f. map (success_entry f)
          (work_units augmentation_functions (max_mag example_args)))
          (png_files (w_listing good_world))) \<and>
      filter is_step (trace t) =
        concat (map (\<lambda>f. Opened f # map invoked_event
          (work_units augmentation_functions (max_mag example_args)))
          (png_files (w_listing good_world)))"
    using t seed_accepted_example operators_total_example o by blast
  then have 2: "\<exists>t. main example_env example_args good_world = Inr t \<and>
      log_data t =
        map (success_entry ''a.png'') (work_units augmentation_functions 2) @
        map (success_entry ''b.png'') (work_units augmentation_functions 2) \<and>
      filter is_step (trace t) =
        Opened ''a.png'' # map invoked_event (work_units augmentation_functions 2) @
        Opened ''b.png'' # map invoked_event (work_units augmentation_functions 2)"
    by (simp add: p m)
  show ?thesis using seed_accepted_example operators_total_example p 1 2 by blast
qed

text \<open>
  Claim C1, as stated, fails: the run of the example, with the built-in catalog and
  \<^verbatim>\<open>max_mag\<close> 2 on the two images \<^verbatim>\<open>a.png\<close> (every operator succeeds) and
  \<^verbatim>\<open>bad.png\<close> (cannot be opened), leaves 55 records, 54 of them for \<^verbatim>\<open>a.png\<close>.
\<close>

theorem record_count_counterexample:
  "png_files (w_listing example_world) \<noteq> [] \<and> 1 \<le> max_mag example_args \<and>
   length (png_files (w_listing example_world)) = 2 \<and>
   (\<exists>s. main example_env example_args example_world = Inr s \<and>
      length (log_data s) = 55 \<and>
      length (filter (\<lambda>r. entry_file r = ''a.png'') (log_data s)) = 54)"
  using main_accepted [OF seed_accepted_example, of example_env example_world]
    example_record_count
  by blast

text \<open>
  Claim C1, amended. In a run whose seed is accepted, with the built-in catalog of 27
  operators and \<^verbatim>\<open>max_mag\<close> at least 1, the final log is the concatenation of one
  block of records per source image, in the order in which the images are processed.
  The block of an image holds the success records of its first \<open>k\<close> WorkUnits, in the
  order of the WorkUnits, each naming the image, followed either by nothing, and then
  \<open>k\<close> is the number \<open>27 * max_mag\<close> of all its WorkUnits, or by exactly one failure
  record that names the image, and then \<open>k\<close> is smaller. So every image contributes at
  least one record and at most \<open>27 * max_mag\<close>, at most one of them a failure record;
  the number of records lies between the number of images and \<open>27 * max_mag\<close> times
  that number; the number of failure records is at most the number of images; and a log
  without failure records holds exactly \<open>27 * max_mag\<close> records per image. (A run whose
  seed is rejected ends at the seeding.)
\<close>

theorem record_count_bounds:
  "(seed_accepted (seed A) \<and> 1 \<le> max_mag A \<longrightarrow>
      (\<exists>s bs. main E A W = Inr s \<and>
         log_data s = concat bs \<and>
         list_all2
           (\<lambda>f b. \<exists>k fails.
              k \<le> length (work_units augmentation_functions (max_mag A)) \<and>
              b = map (success_entry f)
                    (take k (work_units augmentation_functions (max_mag A))) @ fails \<and>
              (fails = [] \<and> k = length (work_units augmentation_functions (max_mag A)) \<or>
               (\<exists>e. fails = [Failure f e]) \<and>
                 k < length (work_units augmentation_functions (max_mag A))))
           (png_files (w_listing W)) bs \<and>
         length (work_units augmentation_functions (max_mag A)) = 27 * nat (max_mag A) \<and>
         (\<forall>b\<in>set bs. 1 \<le> length b \<and> length b \<le> 27 * nat (max_mag A) \<and>
            length (filter is_failure b) \<le> 1) \<and>
         length (png_files (w_listing W)) \<le> length (log_data s) \<and>
         length (log_data s) \<le> length (png_files (w_listing W)) * (27 * nat (max_mag A)) \<and>
         length (filter is_failure (log_data s)) \<le> length (png_files (w_listing W)) \<and>
         (filter is_failure (log_data s) = [] \<longrightarrow>
            length (log_data s) = length (png_files (w_listing W)) * (27 * nat (max_mag A))))) \<and>
   (\<not> seed_accepted (seed A) \<longrightarrow> main E A W = Inl seed_error)"
proof (intro conjI impI)
  assume a: "seed_accepted (seed A) \<and> 1 \<le> max_mag A"
  let ?us = "work_units augmentation_functions (max_mag A)"
  let ?fs = "png_files (w_listing W)"
  let ?L = "log_data (finished E A W)"
  have len: "length ?us = 27 * nat (max_mag A)"
    by (simp add: length_work_units length_augmentation_functions)
  then have ne: "?us \<noteq> []" using a by auto
  obtain bs where bs: "?L = concat bs" "list_all2 (image_block ?us) ?fs bs"
    using run_blocks [of E A augmentation_functions W] by (auto simp: log_data_main)
  have shape: "list_all2
      (\<lambda>f b. \<exists>k fails. k \<le> length ?us \<and>
         b = map (success_entry f) (take k ?us) @ fails \<and>
         (fails = [] \<and> k = length ?us \<or> (\<exists>e. fails = [Failure f e]) \<and> k < length ?us))
      ?fs bs"
  proof (rule list_all2_mono [OF bs(2)])
    fix f b
    assume "image_block ?us f b"
    then obtain k fails where k: "k \<le> length ?us"
        "b = map (success_entry f) (take k ?us) @ fails"
        "fails = [] \<and> k = length ?us \<or>
         (\<exists>e. fails = [Failure f e]) \<and> (k < length ?us \<or> k = 0)"
      unfolding image_block_def by blast
    have "0 < length ?us" using ne by simp
    then have "fails = [] \<and> k = length ?us \<or> (\<exists>e. fails = [Failure f e]) \<and> k < length ?us"
      using k(3) by auto
    then show "\<exists>k fails. k \<le> length ?us \<and>
         b = map (success_entry f) (take k ?us) @ fails \<and>
         (fails = [] \<and> k = length ?us \<or> (\<exists>e. fails = [Failure f e]) \<and> k < length ?us)"
      using k(1,2) by blast
  qed
  have each: "\<forall>b\<in>set bs. 1 \<le> length b \<and> length b \<le> 27 * nat (max_mag A) \<and>
      length (filter is_failure b) \<le> 1"
  proof
    fix b assume "b \<in> set bs"
    then obtain f where "image_block ?us f b"
      using bs(2) by (auto simp: list_all2_conv_all_nth in_set_conv_nth)
    then show "1 \<le> length b \<and> length b \<le> 27 * nat (max_mag A) \<and>
        length (filter is_failure b) \<le> 1"
      using image_block_length [of ?us f b] ne len by simp
  qed
  note c = blocks_count [OF bs(2) ne]
  have 1: "length ?fs \<le> length ?L" using c(1) bs(1) by simp
  have 2: "length ?L \<le> length ?fs * (27 * nat (max_mag A))" using c(2) bs(1) len by simp
  have 3: "length (filter is_failure ?L) \<le> length ?fs" using c(3) bs(1) by simp
  have 4: "filter is_failure ?L = [] \<longrightarrow> length ?L = length ?fs * (27 * nat (max_mag A))"
    using c(4) bs(1) len by simp
  have m: "main E A W = Inr (finished E A W)" using a main_accepted by blast
  show "\<exists>s bs. main E A W = Inr s \<and>
         log_data s = concat bs \<and>
         list_all2
           (\<lambda>f b. \<exists>k fails. k \<le> length ?us \<and>
              b = map (success_entry f) (take k ?us) @ fails \<and>
              (fails = [] \<and> k = length ?us \<or> (\<exists>e. fails = [Failure f e]) \<and> k < length ?us))
           ?fs bs \<and>
         length ?us = 27 * nat (max_mag A) \<and>
         (\<forall>b\<in>set bs. 1 \<le> length b \<and> length b \<le> 27 * nat (max_mag A) \<and>
            length (filter is_failure b) \<le> 1) \<and>
         length ?fs \<le> length (log_data s) \<and>
         length (log_data s) \<le> length ?fs * (27 * nat (max_mag A)) \<and>
         length (filter is_failure (log_data s)) \<le> length ?fs \<and>
         (filter is_failure (log_data s) = [] \<longrightarrow>
            length (log_data s) = length ?fs * (27 * nat (max_mag A)))"
    apply (rule exI [of _ "finished E A W"])
    apply (rule exI [of _ bs])
    using m bs(1) shape len each 1 2 3 4
    by (intro conjI) assumption+
next
  assume "\<not> seed_accepted (seed A)"
  then show "main E A W = Inl seed_error" by (rule main_rejected)
qed

theorem record_count_bounds_witness:
  "seed_accepted (seed example_args) \<and> 1 \<le> max_mag example_args \<and>
   (\<exists>s. main example_env example_args example_world = Inr s \<and>
      length (png_files (w_listing example_world)) \<le> length (log_data s) \<and>
      length (log_data s) \<le>
        length (png_files (w_listing example_world)) * (27 * nat (max_mag example_args)))"
proof -
  have h: "1 \<le> max_mag example_args" by (simp add: example_args_def)
  show ?thesis
    using record_count_bounds [of example_args example_env example_world]
      seed_accepted_example h
    by blast
qed

lemma try_block_raised_in_unit:
  assumes "image_open_resize E f (width A) (height A) = Inr img"
    and "work_units catalog (max_mag A) = pre @ u # post"
    and "unit_loop E f img pre (s\<lparr>trace := trace s @ [Opened f]\<rparr>) = (Done, s0)"
    and "work_unit E f img (fst u) (snd u) s0 = (Raised e, s1)"
  shows "try_block E A catalog f s = (Raised e, s1)"
    and "log_data s1 = log_data s @ map (success_entry f) pre"
    and "process_file E A catalog f s =
           s1\<lparr>log_data := log_data s @ map (success_entry f) pre @ [Failure f e]\<rparr>"
    and "\<forall>v\<in>set pre. \<exists>aug. files s1 (output_name f (snd (fst v)) (snd v)) = Some (ImageData aug)"
proof -
  let ?so = "s\<lparr>trace := trace s @ [Opened f]\<rparr>"
  have "unit_loop E f img (pre @ u # post) ?so = (Raised e, s1)"
    using assms(3,4) by (simp add: unit_loop_append)
  then show t: "try_block E A catalog f s = (Raised e, s1)"
    using assms(1,2) by (simp add: try_block_def func_loop_unit_loop)
  have "log_data s0 = log_data ?so @ map (success_entry f) pre"
    using assms(3) by (rule unit_loop_Done)
  then show l: "log_data s1 = log_data s @ map (success_entry f) pre"
    using work_unit_Raised(1) [OF assms(4)] by simp
  show "process_file E A catalog f s =
      s1\<lparr>log_data := log_data s @ map (success_entry f) pre @ [Failure f e]\<rparr>"
    using t l by (simp add: process_file_def)
  have "\<forall>v\<in>set pre. \<exists>aug. files s0 (output_name f (snd (fst v)) (snd v)) = Some (ImageData aug)"
    using assms(3) by (rule unit_loop_Done_artifacts)
  then show "\<forall>v\<in>set pre.
      \<exists>aug. files s1 (output_name f (snd (fst v)) (snd v)) = Some (ImageData aug)"
    using work_unit_Raised(2) [OF assms(4)] by simp
qed

lemma work_unit_construct_raises:
  "construct E (fst fn) (rng t) = (Inl e, r1) \<Longrightarrow>
     work_unit E f img fn mag t =
       (Raised e, t\<lparr>rng := r1, trace := trace t @ [Constructed (fst fn)]\<rparr>)"
  by (simp add: work_unit_def apply_augmentation_def)

lemma work_unit_call_raises:
  "construct E (fst fn) (rng t) = (Inr inst, r1) \<Longrightarrow> call E inst img mag r1 = (Inl e, r2) \<Longrightarrow>
     work_unit E f img fn mag t =
       (Raised e,
        t\<lparr>rng := r2, trace := trace t @ [Constructed (fst fn), Invoked (fst fn) mag]\<rparr>)"
  by (simp add: work_unit_def apply_augmentation_def)

lemma work_unit_save_raises:
  "construct E (fst fn) (rng t) = (Inr inst, r1) \<Longrightarrow> call E inst img mag r1 = (Inr aug, r2) \<Longrightarrow>
   image_save E aug (output_name f (snd fn) mag) = Some e \<Longrightarrow>
     work_unit E f img fn mag t =
       (Raised e,
        t\<lparr>rng := r2, trace := trace t @ [Constructed (fst fn), Invoked (fst fn) mag]\<rparr>)"
  by (simp add: work_unit_def apply_augmentation_def)

lemma try_block_open_raises:
  "image_open_resize E f (width A) (height A) = Inl e \<Longrightarrow>
     try_block E A catalog f s = (Raised e, s\<lparr>trace := trace s @ [Opened f]\<rparr>)"
  by (simp add: try_block_def)

text \<open>
  Claim C2. An exception reaches the handler of its image from each place where it can
  be raised: when the image cannot be opened or resized, the \<^verbatim>\<open>try\<close> block raises
  at once; when constructing the operator, calling it or saving its result raises, the
  WorkUnit raises, without an artifact and without a record; and when the WorkUnits
  \<open>pre\<close> of an image have ended normally and the next one, \<open>u\<close>, raises, the
  \<^verbatim>\<open>try\<close> block raises in the state \<open>sb\<close> in which \<open>u\<close> left off, so that no
  later WorkUnit is started. In each case the handler appends exactly one failure
  record, with the name of the image and the message, after the success records of
  \<open>pre\<close>, which stay in the log as their artifacts stay in the result directory, and
  changes nothing else. Whenever the \<^verbatim>\<open>try\<close> block of an image raises, it is in one
  of these ways, no file that was there before is removed, and the loop over the images
  goes on with the next image from the state the handler leaves. In a run whose seed is
  accepted every image of the listing is opened, in order, whatever was raised.
\<close>

theorem image_failure_isolated:
  "(image_open_resize E f (width A) (height A) = Inl e \<longrightarrow>
      try_block E A catalog f s = (Raised e, s\<lparr>trace := trace s @ [Opened f]\<rparr>) \<and>
      process_file E A catalog f s =
        s\<lparr>trace := trace s @ [Opened f], log_data := log_data s @ [Failure f e]\<rparr>) \<and>
   (construct E (fst fn) (rng t) = (Inl e, rc) \<longrightarrow>
      work_unit E f img fn mag t =
        (Raised e, t\<lparr>rng := rc, trace := trace t @ [Constructed (fst fn)]\<rparr>)) \<and>
   (construct E (fst fn) (rng t) = (Inr inst, rc) \<and> call E inst img mag rc = (Inl e, rd) \<longrightarrow>
      work_unit E f img fn mag t =
        (Raised e,
         t\<lparr>rng := rd, trace := trace t @ [Constructed (fst fn), Invoked (fst fn) mag]\<rparr>)) \<and>
   (construct E (fst fn) (rng t) = (Inr inst, rc) \<and> call E inst img mag rc = (Inr aug, rd) \<and>
    image_save E aug (output_name f (snd fn) mag) = Some e \<longrightarrow>
      work_unit E f img fn mag t =
        (Raised e,
         t\<lparr>rng := rd, trace := trace t @ [Constructed (fst fn), Invoked (fst fn) mag]\<rparr>)) \<and>
   (image_open_resize E f (width A) (height A) = Inr img \<and>
    work_units catalog (max_mag A) = pre @ u # post \<and>
    unit_loop E f img pre (s\<lparr>trace := trace s @ [Opened f]\<rparr>) = (Done, sa) \<and>
    work_unit E f img (fst u) (snd u) sa = (Raised e, sb) \<longrightarrow>
      try_block E A catalog f s = (Raised e, sb) \<and>
      log_data sb = log_data s @ map (success_entry f) pre \<and>
      process_file E A catalog f s =
        sb\<lparr>log_data := log_data s @ map (success_entry f) pre @ [Failure f e]\<rparr> \<and>
      (\<forall>v\<in>set pre.
         \<exists>aug. files sb (output_name f (snd (fst v)) (snd v)) = Some (ImageData aug))) \<and>
   (try_block E A catalog f s = (Raised e, sb) \<longrightarrow>
      process_file E A catalog f s = sb\<lparr>log_data := log_data sb @ [Failure f e]\<rparr> \<and>
      (image_open_resize E f (width A) (height A) = Inl e \<and>
         sb = s\<lparr>trace := trace s @ [Opened f]\<rparr>
       \<or> (\<exists>img pre u post sa.
            image_open_resize E f (width A) (height A) = Inr img \<and>
            work_units catalog (max_mag A) = pre @ u # post \<and>
            unit_loop E f img pre (s\<lparr>trace := trace s @ [Opened f]\<rparr>) = (Done, sa) \<and>
            work_unit E f img (fst u) (snd u) sa = (Raised e, sb) \<and>
            log_data sb = log_data s @ map (success_entry f) pre \<and>
            (\<forall>v\<in>set pre.
               \<exists>aug. files sb (output_name f (snd (fst v)) (snd v)) = Some (ImageData aug)))) \<and>
      (\<forall>n. files s n \<noteq> None \<longrightarrow> files sb n \<noteq> None) \<and>
      file_loop E A catalog (f # rest) s =
        file_loop E A catalog rest (sb\<lparr>log_data := log_data sb @ [Failure f e]\<rparr>)) \<and>
   (seed_accepted (seed A) \<longrightarrow>
      (\<exists>s2. run E A catalog W = Inr s2 \<and>
         filter is_opened (trace s2) = map Opened (png_files (w_listing W))))"
proof -
  have 1: "image_open_resize E f (width A) (height A) = Inl e \<longrightarrow>
      try_block E A catalog f s = (Raised e, s\<lparr>trace := trace s @ [Opened f]\<rparr>) \<and>
      process_file E A catalog f s =
        s\<lparr>trace := trace s @ [Opened f], log_data := log_data s @ [Failure f e]\<rparr>"
    by (simp add: try_block_open_raises process_file_open_failed)
  have 2: "construct E (fst fn) (rng t) = (Inl e, rc) \<longrightarrow>
      work_unit E f img fn mag t =
        (Raised e, t\<lparr>rng := rc, trace := trace t @ [Constructed (fst fn)]\<rparr>)"
    by (simp add: work_unit_construct_raises)
  have 3: "construct E (fst fn) (rng t) = (Inr inst, rc) \<and>
      call E inst img mag rc = (Inl e, rd) \<longrightarrow>
      work_unit E f img fn mag t =
        (Raised e,
         t\<lparr>rng := rd, trace := trace t @ [Constructed (fst fn), Invoked (fst fn) mag]\<rparr>)"
    by (auto simp: work_unit_call_raises)
  have 4: "construct E (fst fn) (rng t) = (Inr inst, rc) \<and>
      call E inst img mag rc = (Inr aug, rd) \<and>
      image_save E aug (output_name f (snd fn) mag) = Some e \<longrightarrow>
      work_unit E f img fn mag t =
        (Raised e,
         t\<lparr>rng := rd, trace := trace t @ [Constructed (fst fn), Invoked (fst fn) mag]\<rparr>)"
    by (auto simp: work_unit_save_raises)
  have 5: "image_open_resize E f (width A) (height A) = Inr img \<and>
      work_units catalog (max_mag A) = pre @ u # post \<and>
      unit_loop E f img pre (s\<lparr>trace := trace s @ [Opened f]\<rparr>) = (Done, sa) \<and>
      work_unit E f img (fst u) (snd u) sa = (Raised e, sb) \<longrightarrow>
      try_block E A catalog f s = (Raised e, sb) \<and>
      log_data sb = log_data s @ map (success_entry f) pre \<and>
      process_file E A catalog f s =
        sb\<lparr>log_data := log_data s @ map (success_entry f) pre @ [Failure f e]\<rparr> \<and>
      (\<forall>v\<in>set pre.
         \<exists>aug. files sb (output_name f (snd (fst v)) (snd v)) = Some (ImageData aug))"
    using try_block_raised_in_unit [of E f A img catalog pre u post s sa e sb] by blast
  have 6: "try_block E A catalog f s = (Raised e, sb) \<longrightarrow>
      process_file E A catalog f s = sb\<lparr>log_data := log_data sb @ [Failure f e]\<rparr> \<and>
      (image_open_resize E f (width A) (height A) = Inl e \<and>
         sb = s\<lparr>trace := trace s @ [Opened f]\<rparr>
       \<or> (\<exists>img pre u post sa.
            image_open_resize E f (width A) (height A) = Inr img \<and>
            work_units catalog (max_mag A) = pre @ u # post \<and>
            unit_loop E f img pre (s\<lparr>trace := trace s @ [Opened f]\<rparr>) = (Done, sa) \<and>
            work_unit E f img (fst u) (snd u) sa = (Raised e, sb) \<and>
            log_data sb = log_data s @ map (success_entry f) pre \<and>
            (\<forall>v\<in>set pre.
               \<exists>aug. files sb (output_name f (snd (fst v)) (snd v)) = Some (ImageData aug)))) \<and>
      (\<forall>n. files s n \<noteq> None \<longrightarrow> files sb n \<noteq> None) \<and>
      file_loop E A catalog (f # rest) s =
        file_loop E A catalog rest (sb\<lparr>log_data := log_data sb @ [Failure f e]\<rparr>)"
  proof
    assume r: "try_block E A catalog f s = (Raised e, sb)"
    show "process_file E A catalog f s = sb\<lparr>log_data := log_data sb @ [Failure f e]\<rparr> \<and>
      (image_open_resize E f (width A) (height A) = Inl e \<and>
         sb = s\<lparr>trace := trace s @ [Opened f]\<rparr>
       \<or> (\<exists>img pre u post sa.
            image_open_resize E f (width A) (height A) = Inr img \<and>
            work_units catalog (max_mag A) = pre @ u # post \<and>
            unit_loop E f img pre (s\<lparr>trace := trace s @ [Opened f]\<rparr>) = (Done, sa) \<and>
            work_unit E f img (fst u) (snd u) sa = (Raised e, sb) \<and>
            log_data sb = log_data s @ map (success_entry f) pre \<and>
            (\<forall>v\<in>set pre.
               \<exists>aug. files sb (output_name f (snd (fst v)) (snd v)) = Some (ImageData aug)))) \<and>
      (\<forall>n. files s n \<noteq> None \<longrightarrow> files sb n \<noteq> None) \<and>
      file_loop E A catalog (f # rest) s =
        file_loop E A catalog rest (sb\<lparr>log_data := log_data sb @ [Failure f e]\<rparr>)"
      using raised_image_handled [OF r, of rest W] by (intro conjI) blast+
  qed
  have 7: "seed_accepted (seed A) \<longrightarrow>
      (\<exists>s2. run E A catalog W = Inr s2 \<and>
         filter is_opened (trace s2) = map Opened (png_files (w_listing W)))"
    using run_accepted [of A E catalog W] run_opened [of E A catalog W] by blast
  show ?thesis using 1 2 3 4 5 6 7 by (intro conjI) assumption+
qed

lemma work_units_example_split:
  "work_units augmentation_functions (max_mag example_args) =
     [((Curve, ''curve''), 1)] @ ((Curve, ''curve''), 2) #
       drop 2 (work_units augmentation_functions (max_mag example_args))"
  by (simp add: work_units_def augmentation_functions_def example_args_def upto_1_2)

theorem image_failure_isolated_witness:
  "image_open_resize example_env ''bad.png'' (width example_args) (height example_args) =
     Inl ''cannot identify image file'' \<and>
   log_data (process_file example_env example_args augmentation_functions ''bad.png''
       (started example_env example_args example_world)) =
     [Failure ''bad.png'' ''cannot identify image file''] \<and>
   construct broken_env Distort (0::nat) = (Inl ''constructor failed'', 0) \<and>
   fst (work_unit broken_env ''a.png'' 5 (Distort, ''distort'') 1 (blank 0)) =
     Raised ''constructor failed'' \<and>
   call failing_env Curve 5 2 (0::nat) = (Inl ''operator failed'', 1) \<and>
   fst (work_unit failing_env ''a.png'' 5 (Curve, ''curve'') 2 (blank 0)) =
     Raised ''operator failed'' \<and>
   image_save broken_env 5 (output_name ''a.png'' ''curve'' 1) = Some ''disk full'' \<and>
   fst (work_unit broken_env ''a.png'' 5 (Curve, ''curve'') 1 (blank 0)) = Raised ''disk full'' \<and>
   fst (try_block failing_env example_args augmentation_functions ''a.png''
         (started failing_env example_args example_world)) = Raised ''operator failed'' \<and>
   log_data (process_file failing_env example_args augmentation_functions ''a.png''
         (started failing_env example_args example_world)) =
     [Success ''a.png'' ''curve'' 1 ''a_curve_1.png'', Failure ''a.png'' ''operator failed''] \<and>
   seed_accepted (seed example_args) \<and>
   (\<exists>s2. run example_env example_args augmentation_functions example_world = Inr s2 \<and>
      filter is_opened (trace s2) = [Opened ''a.png'', Opened ''bad.png''])"
proof -
  let ?b = "blank 0 :: (nat, nat) state"
  have o: "image_open_resize example_env ''bad.png'' (width example_args) (height example_args) =
      Inl ''cannot identify image file''"
    by (simp add: example_env_def)
  note t1 = image_failure_isolated [where E = example_env and A = example_args
        and f = "''bad.png''" and e = "''cannot identify image file''"
        and catalog = augmentation_functions
        and s = "started example_env example_args example_world",
        THEN conjunct1, rule_format, OF o, THEN conjunct2]
  have 1: "log_data (process_file example_env example_args augmentation_functions ''bad.png''
       (started example_env example_args example_world)) =
     [Failure ''bad.png'' ''cannot identify image file'']"
    by (simp add: t1 log_data_startup)
  have c: "construct broken_env (fst (Distort, ''distort'')) (rng ?b) =
      (Inl ''constructor failed'', 0)"
    by (simp add: broken_env_def)
  note t2 = image_failure_isolated [where E = broken_env and fn = "(Distort, ''distort'')"
        and t = ?b and e = "''constructor failed''" and rc = 0 and f = "''a.png''"
        and img = 5 and mag = 1,
        THEN conjunct2, THEN conjunct1, rule_format, OF c]
  have 2: "fst (work_unit broken_env ''a.png'' 5 (Distort, ''distort'') 1 ?b) =
      Raised ''constructor failed''"
    by (simp add: t2)
  have k: "construct failing_env (fst (Curve, ''curve'')) (rng ?b) = (Inr Curve, 0) \<and>
      call failing_env Curve 5 2 (0::nat) = (Inl ''operator failed'', 1)"
    by (simp add: failing_env_def)
  note t3 = image_failure_isolated [where E = failing_env and fn = "(Curve, ''curve'')"
        and t = ?b and e = "''operator failed''" and rc = 0 and rd = 1 and inst = Curve
        and f = "''a.png''" and img = 5 and mag = 2,
        THEN conjunct2, THEN conjunct2, THEN conjunct1, rule_format, OF k]
  have 3: "fst (work_unit failing_env ''a.png'' 5 (Curve, ''curve'') 2 ?b) =
      Raised ''operator failed''"
    by (simp add: t3)
  have v: "construct broken_env (fst (Curve, ''curve'')) (rng ?b) = (Inr Curve, 0) \<and>
      call broken_env Curve 5 1 (0::nat) = (Inr 5, 1) \<and>
      image_save broken_env 5 (output_name ''a.png'' (snd (Curve, ''curve'')) 1) =
        Some ''disk full''"
    by (simp add: broken_env_def output_name_a_curve_1)
  note t4 = image_failure_isolated [where E = broken_env and fn = "(Curve, ''curve'')"
        and t = ?b and e = "''disk full''" and rc = 0 and rd = 1 and inst = Curve and aug = 5
        and f = "''a.png''" and img = 5 and mag = 1,
        THEN conjunct2, THEN conjunct2, THEN conjunct2, THEN conjunct1, rule_format, OF v]
  have 4: "fst (work_unit broken_env ''a.png'' 5 (Curve, ''curve'') 1 ?b) = Raised ''disk full''"
    by (simp add: t4)
  let ?s = "started failing_env example_args example_world"
  let ?so = "?s\<lparr>trace := trace ?s @ [Opened ''a.png'']\<rparr>"
  let ?u1 = "unit_loop failing_env ''a.png'' 5 [((Curve, ''curve''), 1)] ?so"
  let ?w2 = "work_unit failing_env ''a.png'' 5 (Curve, ''curve'') 2 (snd ?u1)"
  have i: "image_open_resize failing_env ''a.png'' (width example_args) (height example_args) =
      Inr 5"
    by (simp add: failing_env_def)
  have "fst ?u1 = Done"
    by (simp add: work_unit_def apply_augmentation_def failing_env_def Let_def)
  then have u1: "?u1 = (Done, snd ?u1)" by (simp add: prod_eq_iff)
  have "fst ?w2 = Raised ''operator failed''"
    by (simp add: work_unit_def apply_augmentation_def failing_env_def Let_def)
  then have w2: "work_unit failing_env ''a.png'' 5 (fst ((Curve, ''curve''), 2))
      (snd ((Curve, ''curve''), 2)) (snd ?u1) = (Raised ''operator failed'', snd ?w2)"
    by (simp add: prod_eq_iff)
  have h: "image_open_resize failing_env ''a.png'' (width example_args) (height example_args) =
      Inr 5 \<and>
    work_units augmentation_functions (max_mag example_args) =
      [((Curve, ''curve''), 1)] @ ((Curve, ''curve''), 2) #
        drop 2 (work_units augmentation_functions (max_mag example_args)) \<and>
    unit_loop failing_env ''a.png'' 5 [((Curve, ''curve''), 1)] ?so = (Done, snd ?u1) \<and>
    work_unit failing_env ''a.png'' 5 (fst ((Curve, ''curve''), 2))
      (snd ((Curve, ''curve''), 2)) (snd ?u1) = (Raised ''operator failed'', snd ?w2)"
    using i work_units_example_split u1 w2 by (intro conjI)
  note t5 = image_failure_isolated [where E = failing_env and A = example_args
      and f = "''a.png''" and img = 5 and catalog = augmentation_functions
      and pre = "[((Curve, ''curve''), 1)]" and u = "((Curve, ''curve''), 2)"
      and post = "drop 2 (work_units augmentation_functions (max_mag example_args))"
      and s = ?s and sa = "snd ?u1" and sb = "snd ?w2" and e = "''operator failed''",
      THEN conjunct2, THEN conjunct2, THEN conjunct2, THEN conjunct2, THEN conjunct1,
      rule_format, OF h]
  have 5: "fst (try_block failing_env example_args augmentation_functions ''a.png'' ?s) =
      Raised ''operator failed''"
    by (simp add: t5 [THEN conjunct1])
  have e1: "success_entry ''a.png'' ((Curve, ''curve''), 1) =
      Success ''a.png'' ''curve'' 1 ''a_curve_1.png''"
    by (simp add: success_entry_def output_name_a_curve_1)
  have 6: "log_data (process_file failing_env example_args augmentation_functions ''a.png'' ?s) =
      [Success ''a.png'' ''curve'' 1 ''a_curve_1.png'', Failure ''a.png'' ''operator failed'']"
    by (simp add: t5 [THEN conjunct2, THEN conjunct2, THEN conjunct1] log_data_startup e1)
  note t7 = image_failure_isolated [where E = example_env and A = example_args
        and catalog = augmentation_functions and W = example_world,
        THEN conjunct2, THEN conjunct2, THEN conjunct2, THEN conjunct2, THEN conjunct2,
        THEN conjunct2, rule_format, OF seed_accepted_example]
  have 7: "\<exists>s2. run example_env example_args augmentation_functions example_world = Inr s2 \<and>
      filter is_opened (trace s2) = [Opened ''a.png'', Opened ''bad.png'']"
    using t7 by (simp add: png_files_example)
  have c': "construct broken_env Distort (0::nat) = (Inl ''constructor failed'', 0)"
    by (simp add: broken_env_def)
  have s': "image_save broken_env 5 (output_name ''a.png'' ''curve'' 1) = Some ''disk full''"
    by (simp add: broken_env_def output_name_a_curve_1)
  have k2: "call failing_env Curve 5 2 (0::nat) = (Inl ''operator failed'', 1)"
    using k by simp
  show ?thesis
    using o 1 c' 2 k2 3 s' 4 5 6 7 seed_accepted_example by (intro conjI) assumption+
qed

end
